theory Spec2Isabelle
  imports Main "HOL-Library.Char_ord" "HOL-Library.List_Lexorder" "HOL-Library.Multiset"
    "HOL-Library.AList"
begin

section \<open>Collation of FASTQC reports: a model of compile\_fastqc\_data.py\<close>

text \<open>
  The program has two classes. \<^verbatim>\<open>fastqc_report\<close> reads one report file into a
  dictionary of modules; \<^verbatim>\<open>fastqc_collation\<close> finds the report files below a
  directory and writes, for each module, one file holding that module's data of
  every report.

  Conventions of the model.
  \<^item> A Python string is a \<open>string\<close>: a list of characters, each a code point
    below 256; comparison of strings is the lexicographic order on the code
    points.
  \<^item> A Python exception is a value of \<open>py_error\<close>, and a function that can raise
    returns \<open>py_error + 'a\<close>.
  \<^item> The file system is a record: the regular files with their contents, and
    the directories. Reading, writing and deleting are functions on it.
  \<^item> A dictionary is an association list in insertion order.
  \<^item> The numpy and pandas objects are modelled by the lists they hold: a Series
    is a list of (label, value) pairs, a DataFrame a list of column names and a
    list of rows.
\<close>

subsection \<open>Strings\<close>

definition nl :: char where
  "nl = CHR 0x0A"

definition tab :: char where
  "tab = CHR 0x09"

text \<open>
  The characters \<^verbatim>\<open>str.strip()\<close> removes, which are those \<^verbatim>\<open>str.isspace()\<close>
  accepts. Among the code points below 256 these are: tab, newline, vertical
  tab, form feed, carriage return (0x09 to 0x0D), the four separators 0x1C to
  0x1F, the space, the next-line character 0x85 and the no-break space 0xA0.
\<close>

definition is_space :: "char \<Rightarrow> bool" where
  "is_space c = (c = CHR '' '' \<or> c = CHR 0x09 \<or> c = CHR 0x0A \<or> c = CHR 0x0B
                 \<or> c = CHR 0x0C \<or> c = CHR 0x0D
                 \<or> c = CHR 0x1C \<or> c = CHR 0x1D \<or> c = CHR 0x1E \<or> c = CHR 0x1F
                 \<or> c = CHR 0x85 \<or> c = CHR 0xA0)"

definition lstrip :: "string \<Rightarrow> string" where
  "lstrip s = dropWhile is_space s"

definition rstrip :: "string \<Rightarrow> string" where
  "rstrip s = rev (dropWhile is_space (rev s))"

definition strip :: "string \<Rightarrow> string" where
  "strip s = rstrip (lstrip s)"

text \<open>\<^verbatim>\<open>s.split(c)\<close> for a one-character separator: never empty, \<^verbatim>\<open>''.split(c)\<close>
  is \<^verbatim>\<open>['']\<close>.\<close>

fun split_on :: "char \<Rightarrow> string \<Rightarrow> string list" where
  "split_on c [] = [[]]"
| "split_on c (x # xs) =
     (if x = c then [] # split_on c xs
      else (case split_on c xs of
              [] \<Rightarrow> [[x]]
            | w # ws \<Rightarrow> (x # w) # ws))"

text \<open>\<^verbatim>\<open>sep.join(xs)\<close>.\<close>

fun join_with :: "string \<Rightarrow> string list \<Rightarrow> string" where
  "join_with sep [] = []"
| "join_with sep [x] = x"
| "join_with sep (x # y # ys) = x @ sep @ join_with sep (y # ys)"

text \<open>\<^verbatim>\<open>f.readlines()\<close>: the lines of a text, each with its terminating newline
  (the last line may have none).\<close>

fun readlines :: "string \<Rightarrow> string list" where
  "readlines [] = []"
| "readlines (c # cs) =
     (if c = nl then [c] # readlines cs
      else (case readlines cs of
              [] \<Rightarrow> [[c]]
            | l # ls \<Rightarrow> (c # l) # ls))"

text \<open>\<^verbatim>\<open>int(s)\<close> on a string: surrounding whitespace, an optional sign, decimal
  digits; anything else raises \<^verbatim>\<open>ValueError\<close>.\<close>

definition is_digit :: "char \<Rightarrow> bool" where
  "is_digit c = (CHR ''0'' \<le> c \<and> c \<le> CHR ''9'')"

definition digits_value :: "string \<Rightarrow> int" where
  "digits_value ds = foldl (\<lambda>a c. 10 * a + (int (of_char c) - 48)) 0 ds"

definition py_int :: "string \<Rightarrow> int option" where
  "py_int s =
     (let t = strip s;
          (neg, ds) = (case t of
                         [] \<Rightarrow> (False, [])
                       | c # r \<Rightarrow> if c = CHR ''-'' then (True, r)
                                  else if c = CHR ''+'' then (False, r)
                                  else (False, t))
      in if ds \<noteq> [] \<and> list_all is_digit ds
         then Some (if neg then - digits_value ds else digits_value ds)
         else None)"

subsection \<open>Errors\<close>

datatype errno = EEXIST | ENOTDIR | ENOENT | EISDIR

datatype py_error =
    IndexError
  | KeyError string
  | ValueError string
  | TypeError
  | UnboundLocalError
  | OSError errno

subsection \<open>The file system\<close>

record filesys =
  files :: "string \<rightharpoonup> string"
  dirs :: "string set"

definition isfile :: "filesys \<Rightarrow> string \<Rightarrow> bool" where
  "isfile fs p = (files fs p \<noteq> None)"

definition remove_file :: "filesys \<Rightarrow> string \<Rightarrow> filesys" where
  "remove_file fs p = fs\<lparr>files := (files fs)(p := None)\<rparr>"

text \<open>\<^verbatim>\<open>os.path.join(a, b)\<close> of posixpath.\<close>

definition path_join :: "string \<Rightarrow> string \<Rightarrow> string" where
  "path_join a b =
     (if b \<noteq> [] \<and> hd b = CHR ''/'' then b
      else if a = [] \<or> last a = CHR ''/'' then a @ b
      else a @ ''/'' @ b)"

text \<open>The proper ancestors of a path: its prefixes that end just before a
  slash, the empty one left out.\<close>

definition ancestors :: "string \<Rightarrow> string list" where
  "ancestors p =
     map (\<lambda>i. take i p) (filter (\<lambda>i. 0 < i \<and> p ! i = CHR ''/'') [0..<length p])"

text \<open>\<^verbatim>\<open>os.path.dirname(p)\<close> reduced to what opening a file needs: the path up
  to its last slash (\<open>''/''\<close> itself for a file in the root, the empty string
  for a bare name, which stands for the current directory).\<close>

definition dirname :: "string \<Rightarrow> string" where
  "dirname p =
     (let d = rev (dropWhile (\<lambda>c. c \<noteq> CHR ''/'') (rev p))
      in if d = [] then [] else if butlast d = [] then d else butlast d)"

text \<open>\<^verbatim>\<open>os.makedirs(p)\<close>: fails when the path exists already (as a directory or
  as a file) or when an ancestor is a regular file; otherwise creates the
  directory and its ancestors.\<close>

definition makedirs :: "filesys \<Rightarrow> string \<Rightarrow> py_error + filesys" where
  "makedirs fs p =
     (if p \<in> dirs fs \<or> isfile fs p then Inl (OSError EEXIST)
      else if list_ex (isfile fs) (ancestors p) then Inl (OSError ENOTDIR)
      else if p = [] then Inl (OSError ENOENT)
      else Inr (fs\<lparr>dirs := dirs fs \<union> set (ancestors p) \<union> {p}\<rparr>))"

datatype wmode = W | A

text \<open>\<^verbatim>\<open>open(p, mode)\<close> for writing: the directory of the file must exist (the
  current directory always does) and the path must not be a directory. Mode
  \<^verbatim>\<open>'w'\<close> empties the file, mode \<^verbatim>\<open>'a'\<close> keeps what is there; both create it.\<close>

definition open_write :: "filesys \<Rightarrow> string \<Rightarrow> wmode \<Rightarrow> py_error + filesys" where
  "open_write fs p mode =
     (if p \<in> dirs fs then Inl (OSError EISDIR)
      else if dirname p \<noteq> [] \<and> dirname p \<notin> dirs fs then Inl (OSError ENOENT)
      else Inr (fs\<lparr>files := (files fs)(p \<mapsto>
                  (case mode of
                     W \<Rightarrow> []
                   | A \<Rightarrow> (case files fs p of None \<Rightarrow> [] | Some old \<Rightarrow> old)))\<rparr>))"

text \<open>\<^verbatim>\<open>fh.write(s)\<close> on a file opened for writing: the text goes to the end.\<close>

definition write_text :: "filesys \<Rightarrow> string \<Rightarrow> string \<Rightarrow> filesys" where
  "write_text fs p s =
     fs\<lparr>files := (files fs)(p \<mapsto> (case files fs p of None \<Rightarrow> [] | Some old \<Rightarrow> old) @ s)\<rparr>"

subsection \<open>Modules of a report: class fastqc\_module\<close>

text \<open>
  The data of a module is a pandas Series for the module \<^verbatim>\<open>'Basic Statistics'\<close>
  (labels and values, in row order) and a DataFrame for every other module
  (column names and rows).
\<close>

datatype mod_data =
    Series "(string \<times> string) list"
  | DataFrame "string list" "string list list"

record fastqc_module =
  module :: string
  status :: string
  cols :: "string list"
  data :: mod_data

text \<open>A row shorter than the widest one is filled up by pandas with missing
  cells, which \<^verbatim>\<open>to_csv\<close> writes as empty strings.\<close>

definition pad_row :: "nat \<Rightarrow> string list \<Rightarrow> string list" where
  "pad_row n r = r @ replicate (n - length r) []"

definition max_width :: "string list list \<Rightarrow> nat" where
  "max_width ls = fold max (map length ls) 0"

text \<open>
  \<^verbatim>\<open>fastqc_module.__init__\<close>. For \<^verbatim>\<open>'Basic Statistics'\<close> the rows go
  through \<^verbatim>\<open>numpy.array\<close>, and \<^verbatim>\<open>lines_array[:,1]\<close> needs a two-dimensional array
  with a second column: no rows, rows of different lengths (a one-dimensional
  array of lists) and rows of one field raise \<^verbatim>\<open>IndexError\<close>. For the other
  modules \<^verbatim>\<open>pd.DataFrame(lines, columns=cols)\<close> refuses rows whose widest one
  has not as many fields as there are columns.
\<close>

definition fastqc_module_init ::
  "string \<Rightarrow> string \<Rightarrow> string list \<Rightarrow> string list list \<Rightarrow> py_error + fastqc_module" where
  "fastqc_module_init m st cs ls =
     (if m = ''Basic Statistics'' then
        (if ls = [] then Inl IndexError
         else if \<not> list_all (\<lambda>r. length r = length (hd ls)) ls then Inl IndexError
         else if length (hd ls) < 2 then Inl IndexError
         else Inr \<lparr>module = m, status = st, cols = cs,
                   data = Series (map (\<lambda>r. (r ! 0, r ! 1)) ls)\<rparr>)
      else
        (if ls \<noteq> [] \<and> max_width ls \<noteq> length cs
         then Inl (ValueError ''columns passed, passed data had columns'')
         else Inr \<lparr>module = m, status = st, cols = cs,
                   data = DataFrame cs (map (pad_row (length cs)) ls)\<rparr>))"

subsection \<open>Reading a report: class fastqc\_report\<close>

text \<open>
  The loop of \<^verbatim>\<open>_process_fastqc_report\<close> carries four variables from line to
  line: \<^verbatim>\<open>module\<close> and \<^verbatim>\<open>status\<close> (assigned together, unbound before the first
  opening line), \<^verbatim>\<open>cols\<close> (unbound before the first header line), the buffer
  \<^verbatim>\<open>lines\<close>, and the dictionary \<^verbatim>\<open>self.modules\<close>.
\<close>

record scan =
  sc_module :: "(string \<times> string) option"
  sc_cols :: "string list option"
  sc_lines :: "string list list"
  sc_modules :: "(string \<times> fastqc_module) list"

definition scan_init :: scan where
  "scan_init = \<lparr>sc_module = None, sc_cols = None, sc_lines = [], sc_modules = []\<rparr>"

text \<open>The body of the loop, for one line as \<^verbatim>\<open>readlines\<close> gives it.\<close>

definition scan_line :: "scan \<Rightarrow> string \<Rightarrow> py_error + scan" where
  "scan_line s raw =
     (let line = strip raw in
      if take 2 line = ''>>'' \<and> take 12 line \<noteq> ''>>END_MODULE'' then
        (case split_on tab (drop 2 line) of
           [m, st] \<Rightarrow> Inr (s\<lparr>sc_module := Some (m, st)\<rparr>)
         | _ \<Rightarrow> Inl (ValueError ''unpack''))
      else if take 1 line = ''#'' then
        Inr (s\<lparr>sc_cols := Some (split_on tab (drop 1 line))\<rparr>)
      else if line = ''>>END_MODULE'' then
        (case (sc_module s, sc_cols s) of
           (Some (m, st), Some cs) \<Rightarrow>
             (case fastqc_module_init m st cs (sc_lines s) of
                Inl e \<Rightarrow> Inl e
              | Inr md \<Rightarrow>
                  Inr (s\<lparr>sc_modules := AList.update m md (sc_modules s), sc_lines := []\<rparr>))
         | _ \<Rightarrow> Inl UnboundLocalError)
      else Inr (s\<lparr>sc_lines := sc_lines s @ [split_on tab line]\<rparr>))"

fun scan_lines :: "scan \<Rightarrow> string list \<Rightarrow> py_error + scan" where
  "scan_lines s [] = Inr s"
| "scan_lines s (l # ls) =
     (case scan_line s l of
        Inl e \<Rightarrow> Inl e
      | Inr s' \<Rightarrow> scan_lines s' ls)"

text \<open>\<^verbatim>\<open>_process_fastqc_report\<close> on the text of the file.\<close>

definition process_fastqc_report :: "string \<Rightarrow> py_error + (string \<times> fastqc_module) list" where
  "process_fastqc_report txt =
     (case scan_lines scan_init (readlines txt) of
        Inl e \<Rightarrow> Inl e
      | Inr s \<Rightarrow> Inr (sc_modules s))"

text \<open>
  \<^verbatim>\<open>re.sub('(.*)\.fastq.*', '\\1', filename)\<close>. No part of the pattern matches a
  newline, so a match lies within one line of the string. On a line the
  greedy group takes the longest prefix that \<^verbatim>\<open>.fastq\<close> follows (the engine
  gives characters back one by one, \<open>stub_greedy\<close>), the rest of the pattern
  takes the line to its end, and the whole line is replaced by the group. A
  line without \<^verbatim>\<open>.fastq\<close> has no match and stays.
\<close>

fun stub_greedy :: "nat \<Rightarrow> string \<Rightarrow> string option" where
  "stub_greedy 0 s = (if take 6 s = ''.fastq'' then Some [] else None)"
| "stub_greedy (Suc i) s =
     (if take 6 (drop (Suc i) s) = ''.fastq'' then Some (take (Suc i) s)
      else stub_greedy i s)"

definition re_sub_line :: "string \<Rightarrow> string" where
  "re_sub_line s = (case stub_greedy (length s) s of Some g \<Rightarrow> g | None \<Rightarrow> s)"

definition re_sub_fastq :: "string \<Rightarrow> string" where
  "re_sub_fastq s = join_with [nl] (map re_sub_line (split_on nl s))"

text \<open>
  \<^verbatim>\<open>stats[key]\<close> on the Series: a missing label raises \<^verbatim>\<open>KeyError\<close>; a label that
  occurs more than once gives a Series, on which \<^verbatim>\<open>int\<close> and \<^verbatim>\<open>re.sub\<close> raise
  \<^verbatim>\<open>TypeError\<close>.
\<close>

definition series_scalar :: "(string \<times> string) list \<Rightarrow> string \<Rightarrow> py_error + string" where
  "series_scalar kvs k =
     (case filter (\<lambda>kv. fst kv = k) kvs of
        [] \<Rightarrow> Inl (KeyError k)
      | [kv] \<Rightarrow> Inr (snd kv)
      | _ \<Rightarrow> Inl TypeError)"

definition series_int :: "(string \<times> string) list \<Rightarrow> string \<Rightarrow> py_error + int" where
  "series_int kvs k =
     (case series_scalar kvs k of
        Inl e \<Rightarrow> Inl e
      | Inr v \<Rightarrow> (case py_int v of
                    None \<Rightarrow> Inl (ValueError ''invalid literal for int()'')
                  | Some n \<Rightarrow> Inr n))"

record fastqc_report =
  fastqcpath :: string
  modules :: "(string \<times> fastqc_module) list"
  seq_total :: int
  seq_filtered :: int
  seq_length :: int
  seq_gc :: int
  filename :: string
  filestub :: string

text \<open>\<^verbatim>\<open>_process_basic_stats\<close>, the fields read in the order of the source. The
  entry \<^verbatim>\<open>'Basic Statistics'\<close> of the dictionary always holds a Series (see
  \<open>fastqc_module_init\<close>); the other case is there for totality.\<close>

definition process_basic_stats ::
  "string \<Rightarrow> (string \<times> fastqc_module) list \<Rightarrow> py_error + fastqc_report" where
  "process_basic_stats path mods =
     (case map_of mods ''Basic Statistics'' of
        None \<Rightarrow> Inl (KeyError ''Basic Statistics'')
      | Some md \<Rightarrow>
         (case data md of
            DataFrame cs rows \<Rightarrow> Inl TypeError
          | Series stats \<Rightarrow>
             (case series_int stats ''Total Sequences'' of Inl e \<Rightarrow> Inl e | Inr n_total \<Rightarrow>
             (case series_int stats ''Filtered Sequences'' of Inl e \<Rightarrow> Inl e | Inr n_filtered \<Rightarrow>
             (case series_int stats ''Sequence length'' of Inl e \<Rightarrow> Inl e | Inr n_length \<Rightarrow>
             (case series_int stats ''%GC'' of Inl e \<Rightarrow> Inl e | Inr n_gc \<Rightarrow>
             (case series_scalar stats ''Filename'' of Inl e \<Rightarrow> Inl e | Inr fname \<Rightarrow>
                Inr \<lparr>fastqcpath = path, modules = mods,
                     seq_total = n_total, seq_filtered = n_filtered,
                     seq_length = n_length, seq_gc = n_gc,
                     filename = fname, filestub = re_sub_fastq fname\<rparr>)))))))"

text \<open>\<^verbatim>\<open>fastqc_report.__init__\<close>: the file must exist; then the two passes.\<close>

definition fastqc_report_init :: "filesys \<Rightarrow> string \<Rightarrow> py_error + fastqc_report" where
  "fastqc_report_init fs path =
     (case files fs path of
        None \<Rightarrow> Inl (ValueError ''File doesn't exist'')
      | Some txt \<Rightarrow>
         (case process_fastqc_report txt of
            Inl e \<Rightarrow> Inl e
          | Inr mods \<Rightarrow> process_basic_stats path mods))"

subsection \<open>Collation: class fastqc\_collation\<close>

text \<open>
  The object holds the arguments of the constructor, the report files found
  and the module names of the first of them (\<^verbatim>\<open>self.modules\<close>, here
  \<open>coll_modules\<close>, the name \<open>modules\<close> being the field of a report).
\<close>

record fastqc_collation =
  project_root :: string
  out_dir :: string
  fastqc_filename :: string
  sep :: string
  fastqcfiles :: "string list"
  coll_modules :: "string list"

text \<open>What \<^verbatim>\<open>os.walk\<close> yields: for each directory its path, its subdirectories
  and its files. The walk is an input of the model.\<close>

type_synonym walk = "(string \<times> string list \<times> string list) list"

text \<open>The two nested loops of the constructor, before the sort.\<close>

definition collect_reports :: "string \<Rightarrow> walk \<Rightarrow> string list" where
  "collect_reports fname w =
     concat (map (\<lambda>(root, ds, fls).
                    map (\<lambda>name. path_join root fname) (filter (\<lambda>name. name = fname) fls)) w)"

text \<open>\<^verbatim>\<open>fastqc_collation.__init__\<close>. \<^verbatim>\<open>self.fastqcfiles[0]\<close> raises \<^verbatim>\<open>IndexError\<close> on
  the empty list.\<close>

definition fastqc_collation_init ::
  "filesys \<Rightarrow> walk \<Rightarrow> string \<Rightarrow> string option \<Rightarrow> string \<Rightarrow> string
     \<Rightarrow> py_error + fastqc_collation" where
  "fastqc_collation_init fs w root out fname sp =
     (let found = sort (collect_reports fname w) in
      case found of
        [] \<Rightarrow> Inl IndexError
      | f # rest \<Rightarrow>
         (case fastqc_report_init fs f of
            Inl e \<Rightarrow> Inl e
          | Inr r \<Rightarrow>
              Inr \<lparr>project_root = root,
                   out_dir = (case out of None \<Rightarrow> root | Some d \<Rightarrow> d),
                   fastqc_filename = fname, sep = sp,
                   fastqcfiles = found,
                   coll_modules = map fst (modules r)\<rparr>))"

text \<open>\<^verbatim>\<open>_make_sure_path_exists\<close>: an \<^verbatim>\<open>OSError\<close> other than \<^verbatim>\<open>EEXIST\<close> is raised
  again.\<close>

definition make_sure_path_exists :: "fastqc_collation \<Rightarrow> filesys \<Rightarrow> py_error + filesys" where
  "make_sure_path_exists c fs =
     (case makedirs fs (out_dir c) of
        Inl e \<Rightarrow> if e \<noteq> OSError EEXIST then Inl e else Inr fs
      | Inr fs' \<Rightarrow> Inr fs')"

text \<open>
  \<^verbatim>\<open>data[key] = value\<close> with a string value. On a Series an existing label is
  overwritten (every occurrence of it) and a new one is added at the end; on a
  DataFrame the column of that name is set in every row, or a new last column
  is added.
\<close>

fun set_item :: "string \<Rightarrow> string \<Rightarrow> mod_data \<Rightarrow> mod_data" where
  "set_item k v (Series kvs) =
     (if k \<in> set (map fst kvs)
      then Series (map (\<lambda>kv. if fst kv = k then (fst kv, v) else kv) kvs)
      else Series (kvs @ [(k, v)]))"
| "set_item k v (DataFrame cs rows) =
     (if k \<in> set cs
      then DataFrame cs (map (\<lambda>r. map (\<lambda>cx. if fst cx = k then v else snd cx) (zip cs r)) rows)
      else DataFrame (cs @ [k]) (map (\<lambda>r. r @ [v]) rows))"

text \<open>
  \<^verbatim>\<open>DataFrame.to_csv(out, index=False, sep=sep, header=header, mode=mode)\<close>.
  The file is opened first; then the csv writer is made, which wants a
  delimiter of one character. A field is quoted when it holds the delimiter, a
  double quote or a line break, and a double quote in it is doubled. Every
  line ends with a newline.
\<close>

definition csv_field :: "char \<Rightarrow> string \<Rightarrow> string" where
  "csv_field d s =
     (if d \<in> set s \<or> CHR 0x22 \<in> set s \<or> CHR 0x0A \<in> set s \<or> CHR 0x0D \<in> set s
      then [CHR 0x22] @ concat (map (\<lambda>c. if c = CHR 0x22 then [c, c] else [c]) s) @ [CHR 0x22]
      else s)"

definition csv_line :: "char \<Rightarrow> string list \<Rightarrow> string" where
  "csv_line d r = join_with [d] (map (csv_field d) r) @ [nl]"

definition to_csv ::
  "string list \<Rightarrow> string list list \<Rightarrow> string \<Rightarrow> string \<Rightarrow> bool \<Rightarrow> wmode \<Rightarrow> filesys
     \<Rightarrow> filesys \<times> py_error option" where
  "to_csv cs rows out sp header mode fs =
     (case open_write fs out mode of
        Inl e \<Rightarrow> (fs, Some e)
      | Inr fs1 \<Rightarrow>
         (case sp of
            [d] \<Rightarrow>
              (write_text fs1 out
                 ((if header then csv_line d cs else []) @ concat (map (csv_line d) rows)),
               None)
          | _ \<Rightarrow> (fs1, Some TypeError)))"

text \<open>
  \<^verbatim>\<open>_process_mod\<close>. The mode is one of the two the callers pass, so the check
  of the mode has no failing case here. The two assignments change the data
  of the module inside the report object, which the caller keeps: the function
  returns the report as it is afterwards. A module named
  \<^verbatim>\<open>'Basic Statistics'\<close> holds a Series and no other module does; the two
  remaining combinations are there for totality.
\<close>

definition process_mod ::
  "fastqc_collation \<Rightarrow> string \<Rightarrow> fastqc_report \<Rightarrow> string \<Rightarrow> string \<Rightarrow> wmode \<Rightarrow> filesys
     \<Rightarrow> filesys \<times> (py_error + fastqc_report)" where
  "process_mod c filepath qc m out mode fs =
     (if m \<notin> set (coll_modules c) then (fs, Inl (KeyError ''Module not found.''))
      else
        (case map_of (modules qc) m of
           None \<Rightarrow> (fs, Inl (KeyError m))
         | Some md \<Rightarrow>
            (let d = set_item ''Filepath'' filepath
                       (set_item ''Filestub'' (filestub qc) (data md));
                 qc' = qc\<lparr>modules := AList.update m (md\<lparr>data := d\<rparr>) (modules qc)\<rparr>
             in if m = ''Basic Statistics'' then
                  (case d of
                     Series kvs \<Rightarrow>
                       (case open_write fs out mode of
                          Inl e \<Rightarrow> (fs, Inl e)
                        | Inr fs1 \<Rightarrow>
                            (write_text fs1 out
                               ((if mode = W then join_with (sep c) (map fst kvs) @ [nl] else [])
                                @ join_with (sep c) (map snd kvs) @ [nl]),
                             Inr qc'))
                   | DataFrame cs rows \<Rightarrow> (fs, Inl TypeError))
                else
                  (case d of
                     DataFrame cs rows \<Rightarrow>
                       (case to_csv cs rows out (sep c) (mode = W) mode fs of
                          (fs', Some e) \<Rightarrow> (fs', Inl e)
                        | (fs', None) \<Rightarrow> (fs', Inr qc'))
                   | Series kvs \<Rightarrow> (fs, Inl TypeError)))))"

text \<open>The argument \<^verbatim>\<open>modules\<close> of \<^verbatim>\<open>process\<close>: absent, one string, or a list of
  strings.\<close>

datatype modules_arg = NoModules | OneName string | Names "string list"

definition suffix :: "fastqc_collation \<Rightarrow> string" where
  "suffix c = (if sep c \<noteq> '','' then ''.txt'' else ''.csv'')"

definition out_file :: "fastqc_collation \<Rightarrow> string \<Rightarrow> string" where
  "out_file c m = path_join (out_dir c) (m @ ''_fastqc_collation'' @ suffix c)"

fun requested :: "fastqc_collation \<Rightarrow> modules_arg \<Rightarrow> string list" where
  "requested c NoModules = coll_modules c"
| "requested c (OneName m) = [m]"
| "requested c (Names ms) = ms"

text \<open>The first loop of \<^verbatim>\<open>process\<close>: old files are removed.\<close>

fun remove_old :: "fastqc_collation \<Rightarrow> string list \<Rightarrow> filesys \<Rightarrow> filesys" where
  "remove_old c [] fs = fs"
| "remove_old c (m # ms) fs =
     remove_old c ms
       (if isfile fs (out_file c m) then remove_file fs (out_file c m) else fs)"

text \<open>The inner loop of the second one: the modules, for one report.\<close>

fun process_modules ::
  "fastqc_collation \<Rightarrow> string \<Rightarrow> fastqc_report \<Rightarrow> string list \<Rightarrow> filesys
     \<Rightarrow> filesys \<times> (py_error + fastqc_report)" where
  "process_modules c f qc [] fs = (fs, Inr qc)"
| "process_modules c f qc (m # ms) fs =
     (case process_mod c f qc m (out_file c m)
             (if isfile fs (out_file c m) then A else W) fs of
        (fs', Inl e) \<Rightarrow> (fs', Inl e)
      | (fs', Inr qc') \<Rightarrow> process_modules c f qc' ms fs')"

text \<open>The outer loop: each report file is read once.\<close>

fun process_files ::
  "fastqc_collation \<Rightarrow> string list \<Rightarrow> string list \<Rightarrow> filesys \<Rightarrow> filesys \<times> py_error option" where
  "process_files c ms [] fs = (fs, None)"
| "process_files c ms (f # rest) fs =
     (case fastqc_report_init fs f of
        Inl e \<Rightarrow> (fs, Some e)
      | Inr qc \<Rightarrow>
         (case process_modules c f qc ms fs of
            (fs', Inl e) \<Rightarrow> (fs', Some e)
          | (fs', Inr qc') \<Rightarrow> process_files c ms rest fs'))"

text \<open>\<^verbatim>\<open>process\<close>: the file system afterwards, and the exception if one was
  raised.\<close>

definition process ::
  "fastqc_collation \<Rightarrow> modules_arg \<Rightarrow> filesys \<Rightarrow> filesys \<times> py_error option" where
  "process c arg fs =
     (case make_sure_path_exists c fs of
        Inl e \<Rightarrow> (fs, Some e)
      | Inr fs1 \<Rightarrow>
          process_files c (requested c arg) (fastqcfiles c)
            (remove_old c (requested c arg) fs1))"

subsection \<open>Predicates of the statements\<close>

text \<open>A stripped line that is none of the three markers: the last branch of
  the loop takes it.\<close>

definition is_data_line :: "string \<Rightarrow> bool" where
  "is_data_line line =
     (\<not> (take 2 line = ''>>'' \<and> take 12 line \<noteq> ''>>END_MODULE'')
      \<and> take 1 line \<noteq> ''#'' \<and> line \<noteq> ''>>END_MODULE'')"

definition starts_space :: "string \<Rightarrow> bool" where
  "starts_space s = (s \<noteq> [] \<and> is_space (hd s))"

definition ends_space :: "string \<Rightarrow> bool" where
  "ends_space s = (s \<noteq> [] \<and> is_space (last s))"

text \<open>A row whose first field does not begin and whose last field does not end
  with whitespace; a list of column names whose last one does not end with
  whitespace.\<close>

definition row_stripped :: "string list \<Rightarrow> bool" where
  "row_stripped r = (r \<noteq> [] \<and> \<not> starts_space (hd r) \<and> \<not> ends_space (last r))"

definition cols_stripped :: "string list \<Rightarrow> bool" where
  "cols_stripped cs = (cs \<noteq> [] \<and> \<not> ends_space (last cs))"

definition no_newline :: "string list \<Rightarrow> bool" where
  "no_newline r = list_all (\<lambda>f. nl \<notin> set f) r"

text \<open>
  A property of the data of a module, given one of lists of column names and
  one of rows: a DataFrame has such columns and such rows; a Series was made
  of such rows, its labels their first and its values their second fields.
\<close>

fun data_inv :: "(string list \<Rightarrow> bool) \<Rightarrow> (string list \<Rightarrow> bool) \<Rightarrow> mod_data \<Rightarrow> bool" where
  "data_inv Q P (DataFrame cs rows) = (Q cs \<and> list_all P rows)"
| "data_inv Q P (Series kvs) =
     (\<exists>ls. list_all P ls \<and> list_all (\<lambda>r. 2 \<le> length r) ls
           \<and> kvs = map (\<lambda>r. (r ! 0, r ! 1)) ls)"

definition modules_inv ::
  "(string list \<Rightarrow> bool) \<Rightarrow> (string list \<Rightarrow> bool) \<Rightarrow> (string \<times> fastqc_module) list \<Rightarrow> bool" where
  "modules_inv Q P mods = (\<forall>k md. map_of mods k = Some md \<longrightarrow> data_inv Q P (data md))"

definition scan_inv :: "(string list \<Rightarrow> bool) \<Rightarrow> (string list \<Rightarrow> bool) \<Rightarrow> scan \<Rightarrow> bool" where
  "scan_inv Q P s =
     ((\<forall>cs. sc_cols s = Some cs \<longrightarrow> Q cs) \<and> list_all P (sc_lines s)
      \<and> modules_inv Q P (sc_modules s))"

subsection \<open>Example reports\<close>

text \<open>Two small reports in the format of the tool, each with the module
  \<^verbatim>\<open>'Basic Statistics'\<close> and one table of two rows, and a file system that
  holds them.\<close>

definition ex_stats :: "string \<Rightarrow> string \<Rightarrow> string" where
  "ex_stats fname n =
     ''>>Basic Statistics'' @ [tab] @ ''pass'' @ [nl] @
     ''#Measure'' @ [tab] @ ''Value'' @ [nl] @
     ''Filename'' @ [tab] @ fname @ [nl] @
     ''Total Sequences'' @ [tab] @ n @ [nl] @
     ''Filtered Sequences'' @ [tab] @ ''0'' @ [nl] @
     ''Sequence length'' @ [tab] @ ''50'' @ [nl] @
     ''%GC'' @ [tab] @ ''47'' @ [nl] @
     ''>>END_MODULE'' @ [nl]"

definition ex_quality :: "string \<Rightarrow> string \<Rightarrow> string" where
  "ex_quality q1 q2 =
     ''>>Quality'' @ [tab] @ ''pass'' @ [nl] @
     ''#Base'' @ [tab] @ ''Mean'' @ [nl] @
     ''1'' @ [tab] @ q1 @ [nl] @
     ''2'' @ [tab] @ q2 @ [nl] @
     ''>>END_MODULE'' @ [nl]"

definition ex_report_A :: string where
  "ex_report_A = ex_stats ''sample1.fastq.gz'' ''1000'' @ ex_quality ''30'' ''31''"

definition ex_report_B :: string where
  "ex_report_B = ex_stats ''sample2.fastq.gz'' ''2000'' @ ex_quality ''28'' ''29''"

text \<open>A report with one line between the end of the first module and the
  opening of the second.\<close>

definition ex_report_stray :: string where
  "ex_report_stray =
     ex_stats ''sample1.fastq.gz'' ''1000'' @ ''stray'' @ [tab] @ ''row'' @ [nl]
     @ ex_quality ''30'' ''31''"

definition ex_fs :: filesys where
  "ex_fs = \<lparr>files = [''/p/A/fastqc_data.txt'' \<mapsto> ex_report_A,
                     ''/p/B/fastqc_data.txt'' \<mapsto> ex_report_B],
            dirs = {''/'', ''/p'', ''/p/A'', ''/p/B''}\<rparr>"

definition ex_walk :: walk where
  "ex_walk = [(''/p'', [''B'', ''A''], [''notes.txt'']),
              (''/p/B'', [], [''fastqc_data.txt'']),
              (''/p/A'', [], [''fastqc_data.txt'', ''summary.txt''])]"

definition ex_collation :: fastqc_collation where
  "ex_collation =
     \<lparr>project_root = ''/p'', out_dir = ''/p/out'',
      fastqc_filename = ''fastqc_data.txt'', sep = '','',
      fastqcfiles = [''/p/A/fastqc_data.txt'', ''/p/B/fastqc_data.txt''],
      coll_modules = [''Basic Statistics'', ''Quality'']\<rparr>"

text \<open>What reading the first report gives.\<close>

definition ex_parsed_A :: fastqc_report where
  "ex_parsed_A =
     \<lparr>fastqcpath = ''/p/A/fastqc_data.txt'',
      modules =
        [(''Basic Statistics'',
          \<lparr>module = ''Basic Statistics'', status = ''pass'',
           cols = [''Measure'', ''Value''],
           data = Series [(''Filename'', ''sample1.fastq.gz''),
                          (''Total Sequences'', ''1000''),
                          (''Filtered Sequences'', ''0''),
                          (''Sequence length'', ''50''), (''%GC'', ''47'')]\<rparr>),
         (''Quality'',
          \<lparr>module = ''Quality'', status = ''pass'', cols = [''Base'', ''Mean''],
           data = DataFrame [''Base'', ''Mean''] [[''1'', ''30''], [''2'', ''31'']]\<rparr>)],
      seq_total = 1000, seq_filtered = 0, seq_length = 50, seq_gc = 47,
      filename = ''sample1.fastq.gz'', filestub = ''sample1''\<rparr>"

subsection \<open>What a call of \_process\_mod writes\<close>

text \<open>The data of a module after the two assignments of \<^verbatim>\<open>_process_mod\<close>, and
  the header and the data lines written from it.\<close>

definition annotate :: "string \<Rightarrow> string \<Rightarrow> mod_data \<Rightarrow> mod_data" where
  "annotate filepath stub d = set_item ''Filepath'' filepath (set_item ''Filestub'' stub d)"

fun header_text :: "string \<Rightarrow> mod_data \<Rightarrow> string" where
  "header_text sp (Series kvs) = join_with sp (map fst kvs) @ [nl]"
| "header_text sp (DataFrame cs rows) = csv_line (hd sp) cs"

fun body_text :: "string \<Rightarrow> mod_data \<Rightarrow> string" where
  "body_text sp (Series kvs) = join_with sp (map snd kvs) @ [nl]"
| "body_text sp (DataFrame cs rows) = concat (map (csv_line (hd sp)) rows)"

text \<open>The text of a file, the empty text for a file that is not there.\<close>

definition content :: "filesys \<Rightarrow> string \<Rightarrow> string" where
  "content fs p = (case files fs p of None \<Rightarrow> [] | Some old \<Rightarrow> old)"

text \<open>The example file system after an earlier run: the output directory is
  there, with an output file for the module \<^verbatim>\<open>Quality\<close> and one under the
  name of a module that no report has.\<close>

definition ex_fs_stale :: filesys where
  "ex_fs_stale =
     \<lparr>files = [''/p/A/fastqc_data.txt'' \<mapsto> ex_report_A,
               ''/p/B/fastqc_data.txt'' \<mapsto> ex_report_B,
               ''/p/out/Quality_fastqc_collation.csv'' \<mapsto> ''stale'' @ [nl],
               ''/p/out/Bogus_fastqc_collation.csv'' \<mapsto> ''old'' @ [nl]],
      dirs = {''/'', ''/p'', ''/p/A'', ''/p/B'', ''/p/out''}\<rparr>"

subsection \<open>Reading each report once for every module\<close>

text \<open>
  The source reads a report file once and uses the report object for all
  requested modules. For comparison, the variant the specification describes
  as acceptable but wasteful: the same loops, with the file read again before
  every call of \<^verbatim>\<open>_process_mod\<close>.
\<close>

fun process_modules_reparse ::
  "fastqc_collation \<Rightarrow> string \<Rightarrow> string list \<Rightarrow> filesys \<Rightarrow> filesys \<times> py_error option" where
  "process_modules_reparse c f [] fs = (fs, None)"
| "process_modules_reparse c f (m # ms) fs =
     (case fastqc_report_init fs f of
        Inl e \<Rightarrow> (fs, Some e)
      | Inr qc \<Rightarrow>
         (case process_mod c f qc m (out_file c m)
                 (if isfile fs (out_file c m) then A else W) fs of
            (fs', Inl e) \<Rightarrow> (fs', Some e)
          | (fs', Inr qc') \<Rightarrow> process_modules_reparse c f ms fs'))"

fun process_files_reparse ::
  "fastqc_collation \<Rightarrow> string list \<Rightarrow> string list \<Rightarrow> filesys \<Rightarrow> filesys \<times> py_error option" where
  "process_files_reparse c ms [] fs = (fs, None)"
| "process_files_reparse c ms (f # rest) fs =
     (case process_modules_reparse c f ms fs of
        (fs', Some e) \<Rightarrow> (fs', Some e)
      | (fs', None) \<Rightarrow> process_files_reparse c ms rest fs')"

definition process_reparse ::
  "fastqc_collation \<Rightarrow> modules_arg \<Rightarrow> filesys \<Rightarrow> filesys \<times> py_error option" where
  "process_reparse c arg fs =
     (case make_sure_path_exists c fs of
        Inl e \<Rightarrow> (fs, Some e)
      | Inr fs1 \<Rightarrow>
          process_files_reparse c (requested c arg) (fastqcfiles c)
            (remove_old c (requested c arg) fs1))"

subsection \<open>The data of a module in a report file, and lines of text\<close>

text \<open>The data of the module \<open>m\<close> of the report file \<open>f\<close> as \<^verbatim>\<open>_process_mod\<close>
  writes it: read from the file system \<open>fs\<close>, with the sample stub and the
  path of the file added. There is none when the file cannot be read or has no
  such module.\<close>

definition module_data :: "filesys \<Rightarrow> string \<Rightarrow> string \<Rightarrow> mod_data option" where
  "module_data fs f m =
     (case fastqc_report_init fs f of
        Inl e \<Rightarrow> None
      | Inr qc \<Rightarrow> map_option (\<lambda>md. annotate f (filestub qc) (data md)) (map_of (modules qc) m))"

text \<open>The number of records of the data of a module: one for the key-value
  record, the number of rows for a table.\<close>

fun data_rows :: "mod_data \<Rightarrow> nat" where
  "data_rows (Series kvs) = 1"
| "data_rows (DataFrame cs rows) = length rows"

fun data_no_newline :: "mod_data \<Rightarrow> bool" where
  "data_no_newline (Series kvs) = (no_newline (map fst kvs) \<and> no_newline (map snd kvs))"
| "data_no_newline (DataFrame cs rows) = (no_newline cs \<and> list_all no_newline rows)"

text \<open>A line of a text file: it ends with a newline and holds no other.\<close>

definition is_line :: "string \<Rightarrow> bool" where
  "is_line l = (l \<noteq> [] \<and> last l = nl \<and> nl \<notin> set (butlast l))"

text \<open>The one exception by which the program itself says that something was
  not found: the \<^verbatim>\<open>ValueError\<close> of \<^verbatim>\<open>_check_file_exists\<close>.\<close>

definition not_found_error :: "py_error \<Rightarrow> bool" where
  "not_found_error e = (e = ValueError ''File doesn't exist'')"

text \<open>The example file system with the first report replaced by one whose
  module \<^verbatim>\<open>'Basic Statistics'\<close> has no rows.\<close>

definition ex_fs_norows :: filesys where
  "ex_fs_norows =
     \<lparr>files = [''/p/A/fastqc_data.txt'' \<mapsto>
                  ''>>Basic Statistics'' @ [tab] @ ''pass'' @ [nl] @
                  ''#Measure'' @ [tab] @ ''Value'' @ [nl] @
                  ''>>END_MODULE'' @ [nl],
               ''/p/B/fastqc_data.txt'' \<mapsto> ex_report_B],
      dirs = {''/'', ''/p'', ''/p/A'', ''/p/B''}\<rparr>"

section \<open>Properties\<close>

subsection \<open>The sample stub\<close>

lemma stub_greedy_Some:
  "stub_greedy n s = Some g \<Longrightarrow>
     \<exists>i\<le>n. g = take i s \<and> take 6 (drop i s) = ''.fastq'' \<and>
           (\<forall>j. i < j \<and> j \<le> n \<longrightarrow> take 6 (drop j s) \<noteq> ''.fastq'')"
proof (induction n)
  case 0
  then show ?case by (auto split: if_splits)
next
  case (Suc n)
  show ?case
  proof (cases "take 6 (drop (Suc n) s) = ''.fastq''")
    case True
    with Suc.prems have "g = take (Suc n) s" by simp
    with True show ?thesis by (intro exI[of _ "Suc n"]) auto
  next
    case False
    with Suc.prems have "stub_greedy n s = Some g" by simp
    from Suc.IH[OF this] obtain i where i: "i \<le> n" "g = take i s" "take 6 (drop i s) = ''.fastq''"
      "\<forall>j. i < j \<and> j \<le> n \<longrightarrow> take 6 (drop j s) \<noteq> ''.fastq''" by blast
    have "\<forall>j. i < j \<and> j \<le> Suc n \<longrightarrow> take 6 (drop j s) \<noteq> ''.fastq''"
      using i(4) False by (auto simp: le_Suc_eq)
    with i show ?thesis by (intro exI[of _ i]) auto
  qed
qed

lemma stub_greedy_None:
  "stub_greedy n s = None \<Longrightarrow> j \<le> n \<Longrightarrow> take 6 (drop j s) \<noteq> ''.fastq''"
  by (induction n) (auto split: if_splits simp: le_Suc_eq)

lemma re_sub_line_no_match:
  assumes "\<nexists>pre post. s = pre @ ''.fastq'' @ post"
  shows "re_sub_line s = s"
proof (cases "stub_greedy (length s) s")
  case None
  then show ?thesis by (simp add: re_sub_line_def)
next
  case (Some g)
  from stub_greedy_Some[OF this] obtain i where "take 6 (drop i s) = ''.fastq''" by blast
  then have "s = take i s @ ''.fastq'' @ drop 6 (drop i s)"
    by (metis append_take_drop_id)
  with assms show ?thesis by blast
qed

lemma re_sub_line_match:
  assumes "s = pre @ ''.fastq'' @ post"
  shows "\<exists>rest. s = re_sub_line s @ ''.fastq'' @ rest \<and> (\<nexists>u v. rest = u @ ''.fastq'' @ v)"
proof (cases "stub_greedy (length s) s")
  case None
  have "length pre \<le> length s" using assms by simp
  from stub_greedy_None[OF None this] assms show ?thesis by simp
next
  case (Some g)
  from stub_greedy_Some[OF this] obtain i where i: "i \<le> length s" "g = take i s"
    "take 6 (drop i s) = ''.fastq''"
    "\<forall>j. i < j \<and> j \<le> length s \<longrightarrow> take 6 (drop j s) \<noteq> ''.fastq''" by blast
  let ?rest = "drop 6 (drop i s)"
  have s: "s = take i s @ ''.fastq'' @ ?rest"
    using i(3) by (metis append_take_drop_id)
  have len: "i + 6 \<le> length s"
  proof -
    have "length (take 6 (drop i s)) = 6" using i(3) by simp
    then show ?thesis by simp
  qed
  have "\<nexists>u v. ?rest = u @ ''.fastq'' @ v"
  proof
    assume "\<exists>u v. ?rest = u @ ''.fastq'' @ v"
    then obtain u v where uv: "?rest = u @ ''.fastq'' @ v" by blast
    let ?j = "i + 6 + length u"
    have "drop ?j s = drop (length u) ?rest" by (simp add: add.commute add.left_commute)
    also have "\<dots> = ''.fastq'' @ v" using uv by simp
    finally have "take 6 (drop ?j s) = ''.fastq''" by simp
    moreover have "?j \<le> length s"
    proof -
      have "length ?rest = length u + 6 + length v"
        using arg_cong[OF uv, of length] by simp
      then show ?thesis using len by simp
    qed
    moreover have "i < ?j" by simp
    ultimately show False using i(4)[rule_format, of ?j] by blast
  qed
  moreover have "re_sub_line s = take i s" using Some i(2) by (simp add: re_sub_line_def)
  ultimately show ?thesis using s by auto
qed

lemma split_on_no_sep: "c \<notin> set s \<Longrightarrow> split_on c s = [s]"
  by (induction s) auto

lemma re_sub_fastq_line: "nl \<notin> set s \<Longrightarrow> re_sub_fastq s = re_sub_line s"
  by (simp add: re_sub_fastq_def split_on_no_sep)

subsection \<open>An invariant of the scan\<close>

lemma fastqc_module_init_inv:
  assumes "fastqc_module_init m st cs ls = Inr md" "Q cs" "list_all P ls"
    and pad: "\<And>n r. P r \<Longrightarrow> P (pad_row n r)"
  shows "data_inv Q P (data md)"
proof (cases "m = ''Basic Statistics''")
  case True
  with assms(1) have ne: "ls \<noteq> []" and same: "list_all (\<lambda>r. length r = length (hd ls)) ls"
    and two: "\<not> length (hd ls) < 2"
    and md: "data md = Series (map (\<lambda>r. (r ! 0, r ! 1)) ls)"
    by (auto simp: fastqc_module_init_def split: if_splits)
  have "list_all (\<lambda>r. 2 \<le> length r) ls"
    using same two by (auto simp: list_all_iff)
  with assms(3) md show ?thesis by auto
next
  case False
  with assms(1) have md: "data md = DataFrame cs (map (pad_row (length cs)) ls)"
    by (auto simp: fastqc_module_init_def split: if_splits)
  have "list_all P (map (pad_row (length cs)) ls)"
    using assms(3) pad by (auto simp: list_all_iff)
  with md assms(2) show ?thesis by simp
qed

lemma modules_inv_update:
  "modules_inv Q P mods \<Longrightarrow> data_inv Q P (data md) \<Longrightarrow> modules_inv Q P (AList.update m md mods)"
  by (simp add: modules_inv_def update_conv')

lemma scan_line_inv:
  assumes inv: "scan_inv Q P s"
    and row: "P (split_on tab (strip raw))"
    and hdr: "Q (split_on tab (drop 1 (strip raw)))"
    and pad: "\<And>n r. P r \<Longrightarrow> P (pad_row n r)"
    and step: "scan_line s raw = Inr s'"
  shows "scan_inv Q P s'"
proof -
  let ?line = "strip raw"
  consider (opener) "take 2 ?line = ''>>'' \<and> take 12 ?line \<noteq> ''>>END_MODULE''"
    | (header) "\<not> (take 2 ?line = ''>>'' \<and> take 12 ?line \<noteq> ''>>END_MODULE'')" "take 1 ?line = ''#''"
    | (close) "\<not> (take 2 ?line = ''>>'' \<and> take 12 ?line \<noteq> ''>>END_MODULE'')" "take 1 ?line \<noteq> ''#''"
        "?line = ''>>END_MODULE''"
    | (row) "\<not> (take 2 ?line = ''>>'' \<and> take 12 ?line \<noteq> ''>>END_MODULE'')" "take 1 ?line \<noteq> ''#''"
        "?line \<noteq> ''>>END_MODULE''"
    by blast
  then show ?thesis
  proof cases
    case opener
    with step obtain m st where "s' = s\<lparr>sc_module := Some (m, st)\<rparr>"
      by (auto simp: scan_line_def Let_def split: list.splits)
    with inv show ?thesis by (simp add: scan_inv_def)
  next
    case header
    with step have "s' = s\<lparr>sc_cols := Some (split_on tab (drop 1 ?line))\<rparr>"
      by (auto simp: scan_line_def Let_def)
    with inv hdr show ?thesis by (simp add: scan_inv_def)
  next
    case close
    with step obtain m st cs md where cur: "sc_module s = Some (m, st)" "sc_cols s = Some cs"
      and md: "fastqc_module_init m st cs (sc_lines s) = Inr md"
      and s': "s' = s\<lparr>sc_modules := AList.update m md (sc_modules s), sc_lines := []\<rparr>"
      by (auto simp: scan_line_def Let_def split: option.splits sum.splits prod.splits)
    have "data_inv Q P (data md)"
    proof (rule fastqc_module_init_inv[where Q = Q and P = P, OF md])
      show "Q cs" using inv cur by (simp add: scan_inv_def)
      show "list_all P (sc_lines s)" using inv by (simp add: scan_inv_def)
    qed (rule pad)
    with inv s' show ?thesis by (simp add: scan_inv_def modules_inv_update)
  next
    case row
    with step have "s' = s\<lparr>sc_lines := sc_lines s @ [split_on tab ?line]\<rparr>"
      by (auto simp: scan_line_def Let_def)
    with inv \<open>P (split_on tab (strip raw))\<close> show ?thesis by (simp add: scan_inv_def)
  qed
qed

lemma scan_lines_inv:
  assumes "scan_lines s raws = Inr s'" "scan_inv Q P s"
    and "\<And>raw. raw \<in> set raws \<Longrightarrow> P (split_on tab (strip raw))"
    and "\<And>raw. raw \<in> set raws \<Longrightarrow> Q (split_on tab (drop 1 (strip raw)))"
    and pad: "\<And>n r. P r \<Longrightarrow> P (pad_row n r)"
  shows "scan_inv Q P s'"
  using assms(1-4)
proof (induction raws arbitrary: s)
  case Nil
  then show ?case by simp
next
  case (Cons raw raws)
  from Cons.prems(1) obtain s1 where s1: "scan_line s raw = Inr s1" "scan_lines s1 raws = Inr s'"
    by (auto split: sum.splits)
  have "scan_inv Q P s1"
  proof (rule scan_line_inv[OF Cons.prems(2) _ _ pad s1(1)])
    show "P (split_on tab (strip raw))" by (rule Cons.prems(3)) simp
    show "Q (split_on tab (drop 1 (strip raw)))" by (rule Cons.prems(4)) simp
  qed
  then show ?case
  proof (rule Cons.IH[OF s1(2)])
    show "P (split_on tab (strip r))" if "r \<in> set raws" for r
      using that by (intro Cons.prems(3)) simp
    show "Q (split_on tab (drop 1 (strip r)))" if "r \<in> set raws" for r
      using that by (intro Cons.prems(4)) simp
  qed
qed

lemma scan_init_inv: "scan_inv Q P scan_init"
  by (simp add: scan_inv_def scan_init_def modules_inv_def)

subsection \<open>Stripping, splitting and reading lines\<close>

lemma split_on_nonempty: "split_on c s \<noteq> []"
  by (induction s) (auto split: list.splits)

lemma join_split_on: "join_with [c] (split_on c s) = s"
proof (induction s)
  case Nil
  then show ?case by simp
next
  case (Cons x xs)
  obtain w ws where ws: "split_on c xs = w # ws"
    using split_on_nonempty[of c xs] by (cases "split_on c xs") auto
  show ?case
  proof (cases "x = c")
    case True
    with Cons ws show ?thesis by simp
  next
    case False
    with Cons ws show ?thesis by (cases ws) auto
  qed
qed

lemma split_on_fields_subset: "f \<in> set (split_on c s) \<Longrightarrow> set f \<subseteq> set s"
proof (induction s arbitrary: f)
  case Nil
  then show ?case by simp
next
  case (Cons x xs)
  obtain w ws where ws: "split_on c xs = w # ws"
    using split_on_nonempty[of c xs] by (cases "split_on c xs") auto
  have w: "set w \<subseteq> set xs" and rest: "\<And>g. g \<in> set ws \<Longrightarrow> set g \<subseteq> set xs"
    using Cons.IH ws by auto
  show ?case
  proof (cases "x = c")
    case True
    with Cons.prems ws w rest show ?thesis by auto
  next
    case False
    with Cons.prems ws w rest show ?thesis by auto
  qed
qed

lemma hd_split_on_prefix: "\<exists>post. s = hd (split_on c s) @ post"
proof (cases s)
  case Nil
  then show ?thesis by simp
next
  case (Cons x xs)
  obtain w ws where ws: "split_on c xs = w # ws"
    using split_on_nonempty[of c xs] by (cases "split_on c xs") auto
  have "join_with [c] (w # ws) = xs" using join_split_on[of c xs] ws by simp
  then have "\<exists>post. xs = w @ post" by (cases ws) auto
  with Cons ws show ?thesis by auto
qed

lemma last_split_on_suffix: "\<exists>pre. s = pre @ last (split_on c s)"
proof (induction s)
  case Nil
  then show ?case by simp
next
  case (Cons x xs)
  obtain w ws where ws: "split_on c xs = w # ws"
    using split_on_nonempty[of c xs] by (cases "split_on c xs") auto
  from Cons obtain pre where pre: "xs = pre @ last (split_on c xs)" by blast
  show ?case
  proof (cases "x = c")
    case True
    then have "last (split_on c (x # xs)) = last (split_on c xs)"
      using ws by simp
    with pre have "x # xs = (x # pre) @ last (split_on c (x # xs))" by simp
    then show ?thesis by blast
  next
    case False
    show ?thesis
    proof (cases ws)
      case Nil
      with ws have "xs = w" using join_split_on[of c xs] by simp
      with False ws Nil have "x # xs = [] @ last (split_on c (x # xs))" by simp
      then show ?thesis by blast
    next
      case (Cons v vs)
      with False ws have "last (split_on c (x # xs)) = last (split_on c xs)" by simp
      with pre have "x # xs = (x # pre) @ last (split_on c (x # xs))" by simp
      then show ?thesis by blast
    qed
  qed
qed

lemma strip_decomp: "\<exists>a b. l = a @ strip l @ b"
proof -
  have 1: "l = takeWhile is_space l @ lstrip l" by (simp add: lstrip_def)
  have "rev (lstrip l) = takeWhile is_space (rev (lstrip l)) @ dropWhile is_space (rev (lstrip l))"
    by simp
  then have "lstrip l = rev (dropWhile is_space (rev (lstrip l))) @ rev (takeWhile is_space (rev (lstrip l)))"
    by (metis rev_append rev_rev_ident)
  then have 2: "lstrip l = strip l @ rev (takeWhile is_space (rev (lstrip l)))"
    by (simp add: strip_def rstrip_def)
  from 1 2 show ?thesis by metis
qed

lemma strip_set_subset: "set (strip l) \<subseteq> set l"
  using strip_decomp[of l] by (metis Un_iff set_append subsetI)

lemma strip_last: "strip l \<noteq> [] \<Longrightarrow> \<not> is_space (last (strip l))"
proof -
  assume ne: "strip l \<noteq> []"
  let ?d = "dropWhile is_space (rev (lstrip l))"
  have d: "strip l = rev ?d" by (simp add: strip_def rstrip_def)
  with ne have "?d \<noteq> []" by simp
  then have "\<not> is_space (hd ?d)" by (rule hd_dropWhile)
  moreover have "last (strip l) = hd ?d" using d \<open>?d \<noteq> []\<close> by (simp add: last_rev)
  ultimately show ?thesis by simp
qed

lemma strip_hd: "strip l \<noteq> [] \<Longrightarrow> \<not> is_space (hd (strip l))"
proof -
  assume ne: "strip l \<noteq> []"
  let ?t = "lstrip l"
  let ?d = "dropWhile is_space (rev ?t)"
  have d: "strip l = rev ?d" by (simp add: strip_def rstrip_def)
  have "rev ?t = takeWhile is_space (rev ?t) @ ?d" by simp
  then have t: "?t = strip l @ rev (takeWhile is_space (rev ?t))"
    using d by (metis rev_append rev_rev_ident)
  with ne have "?t \<noteq> []" by auto
  then have "\<not> is_space (hd ?t)" unfolding lstrip_def by (rule hd_dropWhile)
  moreover have "hd ?t = hd (strip l)" using t ne by (metis hd_append2)
  ultimately show ?thesis by simp
qed

lemma lstrip_id: "s = [] \<or> \<not> is_space (hd s) \<Longrightarrow> lstrip s = s"
  by (cases s) (auto simp: lstrip_def)

lemma rstrip_id: "s = [] \<or> \<not> is_space (last s) \<Longrightarrow> rstrip s = s"
  by (cases s rule: rev_cases) (auto simp: rstrip_def)

lemma strip_idem: "strip (strip l) = strip l"
proof (cases "strip l = []")
  case True
  have "strip [] = []" by (simp add: strip_def lstrip_def rstrip_def)
  with True show ?thesis by metis
next
  case False
  have "lstrip (strip l) = strip l" using strip_hd[OF False] by (intro lstrip_id) simp
  moreover have "rstrip (strip l) = strip l" using strip_last[OF False] by (intro rstrip_id) simp
  ultimately show ?thesis by (simp add: strip_def)
qed

lemma strip_all_space:
  assumes "list_all is_space l"
  shows "strip l = []"
proof -
  have d: "dropWhile is_space l = []" using assms by (simp add: list_all_iff)
  show ?thesis unfolding strip_def lstrip_def rstrip_def d by simp
qed

lemma row_stripped_split: "row_stripped (split_on tab (strip raw))"
proof -
  let ?line = "strip raw"
  let ?r = "split_on tab ?line"
  have ne: "?r \<noteq> []" by (rule split_on_nonempty)
  have "\<not> starts_space (hd ?r)"
  proof
    assume a: "starts_space (hd ?r)"
    obtain post where "?line = hd ?r @ post" using hd_split_on_prefix by blast
    with a have "?line \<noteq> []" "hd ?line = hd (hd ?r)"
      by (auto simp: starts_space_def) (metis hd_append2)
    with a strip_hd[of raw] show False by (simp add: starts_space_def)
  qed
  moreover have "\<not> ends_space (last ?r)"
  proof
    assume a: "ends_space (last ?r)"
    obtain pre where "?line = pre @ last ?r" using last_split_on_suffix by blast
    with a have "?line \<noteq> []" "last ?line = last (last ?r)"
      by (auto simp: ends_space_def) (metis last_appendR)
    with a strip_last[of raw] show False by (simp add: ends_space_def)
  qed
  ultimately show ?thesis using ne by (simp add: row_stripped_def)
qed

lemma cols_stripped_split: "cols_stripped (split_on tab (drop 1 (strip raw)))"
proof -
  let ?line = "strip raw"
  let ?r = "split_on tab (drop 1 ?line)"
  have ne: "?r \<noteq> []" by (rule split_on_nonempty)
  have "\<not> ends_space (last ?r)"
  proof
    assume a: "ends_space (last ?r)"
    obtain pre where "drop 1 ?line = pre @ last ?r" using last_split_on_suffix by blast
    then have "?line = take 1 ?line @ pre @ last ?r" by (metis append_take_drop_id)
    with a have "?line \<noteq> []" "last ?line = last (last ?r)"
      by (auto simp: ends_space_def) (metis append_assoc last_appendR)
    with a strip_last[of raw] show False by (simp add: ends_space_def)
  qed
  with ne show ?thesis by (simp add: cols_stripped_def)
qed

lemma row_stripped_pad: "row_stripped r \<Longrightarrow> row_stripped (pad_row n r)"
  by (cases "n - length r") (auto simp: row_stripped_def pad_row_def ends_space_def)

lemma no_newline_pad: "no_newline r \<Longrightarrow> no_newline (pad_row n r)"
  by (auto simp: no_newline_def pad_row_def list_all_iff)

lemma readlines_newline_last: "l \<in> set (readlines txt) \<Longrightarrow> nl \<notin> set (butlast l)"
proof (induction "txt" arbitrary: l)
  case Nil
  then show ?case by simp
next
  case (Cons c cs)
  show ?case
  proof (cases "c = nl")
    case True
    with Cons show ?thesis by auto
  next
    case False
    show ?thesis
    proof (cases "readlines cs")
      case Nil
      with False Cons.prems show ?thesis by simp
    next
      case (Cons l' ls)
      with False Cons.prems consider "l = c # l'" | "l \<in> set ls" by auto
      then show ?thesis
      proof cases
        case 1
        have "nl \<notin> set (butlast l')" using Cons.IH[of l'] Cons by simp
        with 1 False show ?thesis by (cases l') auto
      next
        case 2
        then show ?thesis using Cons.IH[of l] Cons by simp
      qed
    qed
  qed
qed

lemma strip_no_newline:
  assumes "nl \<notin> set (butlast l)"
  shows "nl \<notin> set (strip l)"
proof
  assume a: "nl \<in> set (strip l)"
  then have ne: "strip l \<noteq> []" by auto
  have "is_space nl" by (simp add: is_space_def nl_def)
  with strip_last[OF ne] have "last (strip l) \<noteq> nl" by auto
  have sl: "strip l = butlast (strip l) @ [last (strip l)]" using ne by simp
  have "set (strip l) = set (butlast (strip l)) \<union> {last (strip l)}"
    by (subst sl) simp
  with a \<open>last (strip l) \<noteq> nl\<close> have "nl \<in> set (butlast (strip l))" by auto
  moreover obtain x y where "l = x @ strip l @ y" using strip_decomp by blast
  then have "l = (x @ butlast (strip l)) @ (last (strip l) # y)" using sl by (metis append_Cons append_Nil append_assoc)
  then have "butlast l = (x @ butlast (strip l)) @ butlast (last (strip l) # y)"
    by (metis butlast_append list.distinct(1))
  then have "set (butlast (strip l)) \<subseteq> set (butlast l)" by auto
  ultimately show False using assms by auto
qed

lemma no_newline_row:
  assumes "raw \<in> set (readlines txt)"
  shows "no_newline (split_on tab (strip raw))" "no_newline (split_on tab (drop 1 (strip raw)))"
proof -
  have nn: "nl \<notin> set (strip raw)" using assms readlines_newline_last strip_no_newline by blast
  show "no_newline (split_on tab (strip raw))"
    using nn split_on_fields_subset[of _ tab "strip raw"] by (auto simp: no_newline_def list_all_iff)
  have "set (drop 1 (strip raw)) \<subseteq> set (strip raw)" by (rule set_drop_subset)
  then show "no_newline (split_on tab (drop 1 (strip raw)))"
    using nn split_on_fields_subset[of _ tab "drop 1 (strip raw)"]
    by (auto simp: no_newline_def list_all_iff)
qed

subsection \<open>Reports that were read\<close>

lemma parsed_modules_inv:
  assumes "process_fastqc_report t = Inr mods"
  shows "modules_inv cols_stripped row_stripped mods" "modules_inv no_newline no_newline mods"
proof -
  from assms obtain s where s: "scan_lines scan_init (readlines t) = Inr s" "mods = sc_modules s"
    by (auto simp: process_fastqc_report_def split: sum.splits)
  have "scan_inv cols_stripped row_stripped s"
    by (rule scan_lines_inv[OF s(1) scan_init_inv])
       (simp_all only: row_stripped_split cols_stripped_split row_stripped_pad)
  then show "modules_inv cols_stripped row_stripped mods" using s(2) by (simp add: scan_inv_def)
  have "scan_inv no_newline no_newline s"
    by (rule scan_lines_inv[OF s(1) scan_init_inv])
       (simp_all only: no_newline_row no_newline_pad)
  then show "modules_inv no_newline no_newline mods" using s(2) by (simp add: scan_inv_def)
qed

lemma series_scalar_in: "series_scalar kvs k = Inr v \<Longrightarrow> (k, v) \<in> set kvs"
proof -
  assume a: "series_scalar kvs k = Inr v"
  then obtain kv where "filter (\<lambda>kv. fst kv = k) kvs = [kv]" "v = snd kv"
    by (auto simp: series_scalar_def split: list.splits)
  then have "kv \<in> set (filter (\<lambda>kv. fst kv = k) kvs)" by simp
  then have "kv \<in> set kvs" "fst kv = k" by auto
  with \<open>v = snd kv\<close> show ?thesis by (cases kv) auto
qed

lemma report_filename_no_newline:
  assumes "fastqc_report_init fs path = Inr r"
  shows "nl \<notin> set (filename r)"
proof -
  from assms obtain t mods where t: "process_fastqc_report t = Inr mods"
    and r: "process_basic_stats path mods = Inr r"
    by (auto simp: fastqc_report_init_def split: option.splits sum.splits)
  from r obtain md stats where md: "map_of mods ''Basic Statistics'' = Some md"
    "data md = Series stats" and fn: "series_scalar stats ''Filename'' = Inr (filename r)"
    by (auto simp: process_basic_stats_def split: option.splits mod_data.splits sum.splits)
  have "data_inv no_newline no_newline (data md)"
    using parsed_modules_inv(2)[OF t] md(1) by (simp add: modules_inv_def)
  with md(2) obtain ls where ls: "list_all no_newline ls" "list_all (\<lambda>r. 2 \<le> length r) ls"
    "stats = map (\<lambda>r. (r ! 0, r ! 1)) ls" by auto
  from series_scalar_in[OF fn] ls(3) obtain row where row: "row \<in> set ls" "filename r = row ! 1"
    by auto
  with ls(1,2) have "no_newline row" "1 < length row" by (auto simp: list_all_iff)
  then have "nl \<notin> set (row ! 1)" by (auto simp: no_newline_def list_all_iff)
  with row(2) show ?thesis by simp
qed

lemma report_filestub:
  assumes "fastqc_report_init fs path = Inr r"
  shows "filestub r = re_sub_fastq (filename r)"
  using assms
  by (auto simp: fastqc_report_init_def process_basic_stats_def
           split: option.splits mod_data.splits sum.splits)

text \<open>
  Claim C5. For every report that is read without error, the sample stub is
  the file name declared in \<^verbatim>\<open>'Basic Statistics'\<close> cut before its last
  \<^verbatim>\<open>.fastq\<close>, that suffix and all that follows it removed, when the name holds
  \<^verbatim>\<open>.fastq\<close>; it is the name unchanged when it does not.
\<close>

theorem filestub_strips_fastq_suffix:
  assumes "fastqc_report_init fs path = Inr r"
  shows "if (\<exists>pre post. filename r = pre @ ''.fastq'' @ post)
         then (\<exists>rest. filename r = filestub r @ ''.fastq'' @ rest
                      \<and> (\<nexists>u v. rest = u @ ''.fastq'' @ v))
         else filestub r = filename r"
proof -
  have stub: "filestub r = re_sub_line (filename r)"
    using report_filestub[OF assms] report_filename_no_newline[OF assms]
    by (simp add: re_sub_fastq_line)
  show ?thesis
  proof (cases "\<exists>pre post. filename r = pre @ ''.fastq'' @ post")
    case True
    then obtain pre post where "filename r = pre @ ''.fastq'' @ post" by blast
    from re_sub_line_match[OF this] stub True show ?thesis by simp
  next
    case False
    with re_sub_line_no_match[of "filename r"] stub show ?thesis by simp
  qed
qed

theorem filestub_strips_fastq_suffix_witness:
  "fastqc_report_init ex_fs ''/p/A/fastqc_data.txt'' = Inr ex_parsed_A
   \<and> (if (\<exists>pre post. filename ex_parsed_A = pre @ ''.fastq'' @ post)
        then (\<exists>rest. filename ex_parsed_A = filestub ex_parsed_A @ ''.fastq'' @ rest
                     \<and> (\<nexists>u v. rest = u @ ''.fastq'' @ v))
        else filestub ex_parsed_A = filename ex_parsed_A)"
proof -
  have h: "fastqc_report_init ex_fs ''/p/A/fastqc_data.txt'' = Inr ex_parsed_A"
    by code_simp
  from h filestub_strips_fastq_suffix[OF h] show ?thesis by (rule conjI)
qed


subsection \<open>The scan, line by line\<close>

lemma scan_line_data:
  assumes "is_data_line (strip raw)"
  shows "scan_line s raw = Inr (s\<lparr>sc_lines := sc_lines s @ [split_on tab (strip raw)]\<rparr>)"
  using assms by (auto simp: scan_line_def is_data_line_def Let_def)

lemma scan_lines_append:
  "scan_lines s (xs @ ys) =
     (case scan_lines s xs of Inl e \<Rightarrow> Inl e | Inr s' \<Rightarrow> scan_lines s' ys)"
  by (induction xs arbitrary: s) (auto split: sum.splits)

lemma scan_lines_data:
  assumes "list_all (\<lambda>raw. is_data_line (strip raw)) raws"
  shows "scan_lines s raws =
           Inr (s\<lparr>sc_lines := sc_lines s @ map (\<lambda>raw. split_on tab (strip raw)) raws\<rparr>)"
  using assms
proof (induction raws arbitrary: s)
  case Nil
  then show ?case by simp
next
  case (Cons raw raws)
  then have "is_data_line (strip raw)" by simp
  from scan_line_data[OF this, of s] Cons show ?case by simp
qed

lemma split_on_append: "c \<notin> set a \<Longrightarrow> split_on c (a @ c # b) = a # split_on c b"
  by (induction a) auto

lemma scan_line_opener:
  assumes "strip raw = ''>>'' @ m @ [tab] @ st" "tab \<notin> set m" "tab \<notin> set st"
    "take 12 (strip raw) \<noteq> ''>>END_MODULE''"
  shows "scan_line s raw = Inr (s\<lparr>sc_module := Some (m, st)\<rparr>)"
proof -
  have "split_on tab (m @ tab # st) = [m, st]"
    using assms(2,3) by (simp add: split_on_append split_on_no_sep)
  moreover have "take 2 (strip raw) = ''>>''" "drop 2 (strip raw) = m @ tab # st"
    using assms(1) by simp_all
  ultimately show ?thesis using assms(4) by (simp add: scan_line_def Let_def)
qed

lemma scan_line_header:
  assumes "strip raw = ''#'' @ h"
  shows "scan_line s raw = Inr (s\<lparr>sc_cols := Some (split_on tab h)\<rparr>)"
  using assms by (simp add: scan_line_def Let_def)

lemma scan_line_close:
  assumes "strip raw = ''>>END_MODULE''" "sc_module s = Some (m, st)" "sc_cols s = Some cs"
  shows "scan_line s raw =
           (case fastqc_module_init m st cs (sc_lines s) of
              Inl e \<Rightarrow> Inl e
            | Inr md \<Rightarrow>
                Inr (s\<lparr>sc_modules := AList.update m md (sc_modules s), sc_lines := []\<rparr>))"
  using assms by (simp add: scan_line_def Let_def)

text \<open>
  Claim C4, as amended. In the pass over a report every line that is none of
  the three markers is buffered as a data row, in whatever state the scan is:
  the loop has no notion of a module being open. So the lines between an
  \<^verbatim>\<open>>>END_MODULE\<close> line and the next opening line are buffered too, and with
  the lines that follow the header they are the rows of the module that the
  next \<^verbatim>\<open>>>END_MODULE\<close> line closes.
\<close>

theorem stray_lines_join_next_module:
  assumes strays: "list_all (\<lambda>raw. is_data_line (strip raw)) strays"
    and body: "list_all (\<lambda>raw. is_data_line (strip raw)) body"
    and opener: "strip opener = ''>>'' @ m @ [tab] @ st" "tab \<notin> set m" "tab \<notin> set st"
       "take 12 (strip opener) \<noteq> ''>>END_MODULE''"
    and header: "strip header = ''#'' @ h"
    and closing: "strip closing = ''>>END_MODULE''"
  shows "scan_lines s strays =
           Inr (s\<lparr>sc_lines := sc_lines s @ map (\<lambda>raw. split_on tab (strip raw)) strays\<rparr>)
         \<and> scan_lines s (strays @ [opener, header] @ body @ [closing]) =
           (case fastqc_module_init m st (split_on tab h)
                   (sc_lines s @ map (\<lambda>raw. split_on tab (strip raw)) (strays @ body)) of
              Inl e \<Rightarrow> Inl e
            | Inr md \<Rightarrow>
                Inr (s\<lparr>sc_module := Some (m, st), sc_cols := Some (split_on tab h),
                       sc_lines := [],
                       sc_modules := AList.update m md (sc_modules s)\<rparr>))"
proof
  let ?rows = "\<lambda>raws. map (\<lambda>raw. split_on tab (strip raw)) raws"
  show 1: "scan_lines s strays = Inr (s\<lparr>sc_lines := sc_lines s @ ?rows strays\<rparr>)"
    by (rule scan_lines_data[OF strays])
  let ?s1 = "s\<lparr>sc_lines := sc_lines s @ ?rows strays\<rparr>"
  let ?s2 = "?s1\<lparr>sc_module := Some (m, st)\<rparr>"
  let ?s3 = "?s2\<lparr>sc_cols := Some (split_on tab h)\<rparr>"
  let ?s4 = "?s3\<lparr>sc_lines := sc_lines ?s3 @ ?rows body\<rparr>"
  have 2: "scan_lines ?s1 [opener, header] = Inr ?s3"
    by (simp add: scan_line_opener[OF opener] scan_line_header[OF header])
  have 3: "scan_lines ?s3 body = Inr ?s4"
    by (rule scan_lines_data[OF body])
  have 4: "scan_lines ?s4 [closing] =
      (case fastqc_module_init m st (split_on tab h) (sc_lines ?s4) of
         Inl e \<Rightarrow> Inl e
       | Inr md \<Rightarrow> Inr (?s4\<lparr>sc_modules := AList.update m md (sc_modules ?s4), sc_lines := []\<rparr>))"
    using scan_line_close[OF closing, of ?s4 m st "split_on tab h"]
    by (simp split: sum.splits)
  have "scan_lines s (strays @ [opener, header] @ body @ [closing]) = scan_lines ?s4 [closing]"
    by (simp only: scan_lines_append 1 2 3 sum.case)
  also note 4
  finally show "scan_lines s (strays @ [opener, header] @ body @ [closing]) =
           (case fastqc_module_init m st (split_on tab h)
                   (sc_lines s @ ?rows (strays @ body)) of
              Inl e \<Rightarrow> Inl e
            | Inr md \<Rightarrow>
                Inr (s\<lparr>sc_module := Some (m, st), sc_cols := Some (split_on tab h),
                       sc_lines := [],
                       sc_modules := AList.update m md (sc_modules s)\<rparr>))"
    by (simp split: sum.splits)
qed

text \<open>The claim C4 as stated fails on the report with a line between two
  modules: the line is the first row of the second module.\<close>

theorem stray_line_counterexample:
  "process_fastqc_report ex_report_stray =
     Inr [(''Basic Statistics'',
           \<lparr>module = ''Basic Statistics'', status = ''pass'',
            cols = [''Measure'', ''Value''],
            data = Series [(''Filename'', ''sample1.fastq.gz''),
                           (''Total Sequences'', ''1000''),
                           (''Filtered Sequences'', ''0''),
                           (''Sequence length'', ''50''), (''%GC'', ''47'')]\<rparr>),
          (''Quality'',
           \<lparr>module = ''Quality'', status = ''pass'', cols = [''Base'', ''Mean''],
            data = DataFrame [''Base'', ''Mean'']
                     [[''stray'', ''row''], [''1'', ''30''], [''2'', ''31'']]\<rparr>)]"
  by code_simp

lemma report_modules_inv:
  assumes "fastqc_report_init fs path = Inr r"
  shows "modules_inv cols_stripped row_stripped (modules r)"
proof -
  from assms obtain t mods where t: "process_fastqc_report t = Inr mods"
    and r: "process_basic_stats path mods = Inr r"
    by (auto simp: fastqc_report_init_def split: option.splits sum.splits)
  from r have "modules r = mods"
    by (auto simp: process_basic_stats_def split: option.splits mod_data.splits sum.splits)
  with parsed_modules_inv(1)[OF t] show ?thesis by simp
qed

text \<open>
  Claim C9. The body of the loop sees a line only through \<^verbatim>\<open>line.strip()\<close>:
  it does the same on a line and on the stripped line. A line taken as a data
  row gives a row whose first field does not begin and whose last field does
  not end with whitespace; a line of whitespace only is buffered as the row of
  one empty field. In every report read without error the rows of a table,
  and the rows a key-value record was made of, are such rows, and the last
  column name of a table does not end with whitespace.
\<close>

theorem lines_are_stripped_first:
  "scan_line s raw = scan_line s (strip raw)
   \<and> (is_data_line (strip raw) \<longrightarrow>
        scan_line s raw = Inr (s\<lparr>sc_lines := sc_lines s @ [split_on tab (strip raw)]\<rparr>)
        \<and> row_stripped (split_on tab (strip raw)))
   \<and> (list_all is_space raw \<longrightarrow>
        scan_line s raw = Inr (s\<lparr>sc_lines := sc_lines s @ [[[]]]\<rparr>))
   \<and> (fastqc_report_init fs path = Inr r \<longrightarrow>
        modules_inv cols_stripped row_stripped (modules r))"
proof (intro conjI impI)
  show "scan_line s raw = scan_line s (strip raw)"
    by (simp add: scan_line_def strip_idem)
  show "scan_line s raw = Inr (s\<lparr>sc_lines := sc_lines s @ [split_on tab (strip raw)]\<rparr>)"
    if "is_data_line (strip raw)" using that by (rule scan_line_data)
  show "row_stripped (split_on tab (strip raw))" by (rule row_stripped_split)
  show "scan_line s raw = Inr (s\<lparr>sc_lines := sc_lines s @ [[[]]]\<rparr>)"
    if "list_all is_space raw"
  proof -
    have e: "strip raw = []" using that by (rule strip_all_space)
    have "is_data_line (strip raw)" unfolding e by (simp add: is_data_line_def)
    from scan_line_data[OF this, of s] show ?thesis by (simp add: e)
  qed
  show "modules_inv cols_stripped row_stripped (modules r)"
    if "fastqc_report_init fs path = Inr r" using that by (rule report_modules_inv)
qed

theorem stray_lines_join_next_module_witness:
  "scan_lines scan_init
     ([''stray'' @ [tab] @ ''row'' @ [nl]]
      @ [''>>Quality'' @ [tab] @ ''pass'' @ [nl], ''#Base'' @ [tab] @ ''Mean'' @ [nl]]
      @ [''1'' @ [tab] @ ''30'' @ [nl]] @ [''>>END_MODULE'' @ [nl]]) =
   Inr \<lparr>sc_module = Some (''Quality'', ''pass''), sc_cols = Some [''Base'', ''Mean''],
        sc_lines = [],
        sc_modules =
          [(''Quality'',
            \<lparr>module = ''Quality'', status = ''pass'', cols = [''Base'', ''Mean''],
             data = DataFrame [''Base'', ''Mean''] [[''stray'', ''row''], [''1'', ''30'']]\<rparr>)]\<rparr>"
proof -
  let ?strays = "[''stray'' @ [tab] @ ''row'' @ [nl]]"
  let ?body = "[''1'' @ [tab] @ ''30'' @ [nl]]"
  let ?opener = "''>>Quality'' @ [tab] @ ''pass'' @ [nl]"
  let ?header = "''#Base'' @ [tab] @ ''Mean'' @ [nl]"
  let ?closing = "''>>END_MODULE'' @ [nl]"
  have 1: "list_all (\<lambda>raw. is_data_line (strip raw)) ?strays" by code_simp
  have 2: "list_all (\<lambda>raw. is_data_line (strip raw)) ?body" by code_simp
  have 3: "strip ?opener = ''>>'' @ ''Quality'' @ [tab] @ ''pass''" by code_simp
  have 4: "tab \<notin> set ''Quality''" "tab \<notin> set ''pass''" by code_simp+
  have 5: "take 12 (strip ?opener) \<noteq> ''>>END_MODULE''" by code_simp
  have 6: "strip ?header = ''#'' @ (''Base'' @ [tab] @ ''Mean'')" by code_simp
  have 7: "strip ?closing = ''>>END_MODULE''" by code_simp
  have 8: "(case fastqc_module_init ''Quality'' ''pass'' (split_on tab (''Base'' @ [tab] @ ''Mean''))
                   (sc_lines scan_init @ map (\<lambda>raw. split_on tab (strip raw)) (?strays @ ?body)) of
              Inl e \<Rightarrow> Inl e
            | Inr md \<Rightarrow>
                Inr (scan_init\<lparr>sc_module := Some (''Quality'', ''pass''),
                       sc_cols := Some (split_on tab (''Base'' @ [tab] @ ''Mean'')),
                       sc_lines := [],
                       sc_modules := AList.update ''Quality'' md (sc_modules scan_init)\<rparr>)) =
   Inr \<lparr>sc_module = Some (''Quality'', ''pass''), sc_cols = Some [''Base'', ''Mean''],
        sc_lines = [],
        sc_modules =
          [(''Quality'',
            \<lparr>module = ''Quality'', status = ''pass'', cols = [''Base'', ''Mean''],
             data = DataFrame [''Base'', ''Mean''] [[''stray'', ''row''], [''1'', ''30'']]\<rparr>)]\<rparr>"
    by code_simp
  from stray_lines_join_next_module[OF 1 2 3 4 5 6 7, of scan_init]
  show ?thesis unfolding 8 by (rule conjunct2)
qed

theorem lines_are_stripped_first_witness:
  "is_data_line (strip ([CHR 0x1C, CHR '' '', CHR 0xA0] @ [nl])) \<and> list_all is_space ([CHR 0x1C, CHR '' '', CHR 0xA0] @ [nl])
   \<and> fastqc_report_init ex_fs ''/p/A/fastqc_data.txt'' = Inr ex_parsed_A
   \<and> scan_line scan_init ([CHR 0x1C, CHR '' '', CHR 0xA0] @ [nl]) = Inr (scan_init\<lparr>sc_lines := [[[]]]\<rparr>)
   \<and> row_stripped (split_on tab (strip ([CHR 0x1C, CHR '' '', CHR 0xA0] @ [nl])))
   \<and> modules_inv cols_stripped row_stripped (modules ex_parsed_A)"
proof -
  have 1: "is_data_line (strip ([CHR 0x1C, CHR '' '', CHR 0xA0] @ [nl]))" by code_simp
  have 2: "list_all is_space ([CHR 0x1C, CHR '' '', CHR 0xA0] @ [nl])" by code_simp
  have 3: "fastqc_report_init ex_fs ''/p/A/fastqc_data.txt'' = Inr ex_parsed_A" by code_simp
  have 4: "sc_lines scan_init = []" by code_simp
  note T = lines_are_stripped_first[of scan_init "[CHR 0x1C, CHR '' '', CHR 0xA0] @ [nl]" ex_fs
      "''/p/A/fastqc_data.txt''" ex_parsed_A]
  from T 2 have "scan_line scan_init ([CHR 0x1C, CHR '' '', CHR 0xA0] @ [nl])
      = Inr (scan_init\<lparr>sc_lines := sc_lines scan_init @ [[[]]]\<rparr>)" by blast
  then have a: "scan_line scan_init ([CHR 0x1C, CHR '' '', CHR 0xA0] @ [nl]) = Inr (scan_init\<lparr>sc_lines := [[[]]]\<rparr>)"
    by (simp only: 4 append_Nil)
  from T 1 have b: "row_stripped (split_on tab (strip ([CHR 0x1C, CHR '' '', CHR 0xA0] @ [nl])))" by blast
  from T 3 have c: "modules_inv cols_stripped row_stripped (modules ex_parsed_A)" by blast
  from 1 2 3 a b c show ?thesis by blast
qed

subsection \<open>Discovery\<close>

lemma set_collect_reports:
  "set (collect_reports fname w) =
     {path_join rt fname | rt ds fls. (rt, ds, fls) \<in> set w \<and> fname \<in> set fls}"
  by (auto simp: collect_reports_def)

lemma mset_collect_reports:
  assumes "mset w' = mset w"
  shows "mset (collect_reports fname w') = mset (collect_reports fname w)"
proof -
  let ?f = "\<lambda>(root, ds, fls). map (\<lambda>name. path_join root fname) (filter (\<lambda>name. name = fname) fls)"
  have "mset (collect_reports fname v) = sum_mset (image_mset (\<lambda>x. mset (?f x)) (mset v))" for v :: walk
    by (induction v) (auto simp: collect_reports_def)
  with assms show ?thesis by simp
qed

lemma sort_mset_eq: "mset xs = mset ys \<Longrightarrow> sort xs = sort ys"
  by (rule properties_for_sort) simp_all

lemma collation_init_files:
  assumes "fastqc_collation_init fs w root out fname sp = Inr c"
  shows "fastqcfiles c = sort (collect_reports fname w)"
  using assms
  by (auto simp: fastqc_collation_init_def Let_def split: list.splits sum.splits)

text \<open>
  Claim C8. The report files of a collation are the files the walk yields
  under the expected name, each under its full path, as a set and with the
  same multiplicities; the list is sorted by full path; and the constructor
  gives the same object for every walk that yields the same matching files
  in another order, in particular for every reordering of the walk.
\<close>

theorem discovery_is_sorted_matches:
  assumes "fastqc_collation_init fs w root out fname sp = Inr c"
  shows "sorted (fastqcfiles c)
         \<and> set (fastqcfiles c) =
             {path_join rt fname | rt ds fls. (rt, ds, fls) \<in> set w \<and> fname \<in> set fls}
         \<and> mset (fastqcfiles c) = mset (collect_reports fname w)
         \<and> (\<forall>w'. mset (collect_reports fname w') = mset (collect_reports fname w) \<longrightarrow>
                fastqc_collation_init fs w' root out fname sp = Inr c)
         \<and> (\<forall>w'. mset w' = mset w \<longrightarrow>
                fastqc_collation_init fs w' root out fname sp = Inr c)"
proof -
  have f: "fastqcfiles c = sort (collect_reports fname w)"
    by (rule collation_init_files[OF assms])
  have same: "fastqc_collation_init fs w' root out fname sp = Inr c"
    if "mset (collect_reports fname w') = mset (collect_reports fname w)" for w'
  proof -
    have "sort (collect_reports fname w') = sort (collect_reports fname w)"
      by (rule sort_mset_eq[OF that])
    with assms show ?thesis by (simp add: fastqc_collation_init_def)
  qed
  have 1: "sorted (fastqcfiles c)" by (simp add: f)
  have 2: "set (fastqcfiles c) =
             {path_join rt fname | rt ds fls. (rt, ds, fls) \<in> set w \<and> fname \<in> set fls}"
    by (simp only: f set_sort set_collect_reports)
  have 3: "mset (fastqcfiles c) = mset (collect_reports fname w)" by (simp add: f)
  have 4: "\<forall>w'. mset w' = mset w \<longrightarrow> fastqc_collation_init fs w' root out fname sp = Inr c"
    using same mset_collect_reports by blast
  from 1 2 3 same 4 show ?thesis by blast
qed

text \<open>
  Claim C3, as amended. When no file below the root has the expected name, the
  constructor fails, but not with an error of its own for ``no reports
  found'': it makes no check of the list of report files, and what is raised
  is the \<^verbatim>\<open>IndexError\<close> of the look-up \<^verbatim>\<open>self.fastqcfiles[0]\<close> on the empty
  list, which is not the error by which the program reports a missing file.
\<close>

theorem no_reports_is_an_error:
  assumes "\<forall>(rt, ds, fls) \<in> set w. fname \<notin> set fls"
  shows "fastqc_collation_init fs w root out fname sp = Inl IndexError
         \<and> \<not> not_found_error IndexError"
proof -
  have "set (collect_reports fname w) = {}"
    using assms by (auto simp: set_collect_reports)
  then have "collect_reports fname w = []" by simp
  then show ?thesis by (simp add: fastqc_collation_init_def not_found_error_def)
qed

text \<open>The claim C3 as stated fails: with no file of the expected name the
  error is \<^verbatim>\<open>IndexError\<close>, no ``not found'' error; and the same error is
  raised when both report files are found and the first one has a
  \<^verbatim>\<open>'Basic Statistics'\<close> module without rows, so it does not tell that no
  report was found.\<close>

theorem no_reports_counterexample:
  "fastqc_collation_init ex_fs ex_walk ''/p'' None ''fastqc.txt'' '','' = Inl IndexError
   \<and> \<not> not_found_error IndexError
   \<and> collect_reports ''fastqc_data.txt'' ex_walk =
       [''/p/B/fastqc_data.txt'', ''/p/A/fastqc_data.txt'']
   \<and> fastqc_collation_init ex_fs_norows ex_walk ''/p'' None ''fastqc_data.txt'' '','' =
       Inl IndexError"
  by code_simp

theorem discovery_is_sorted_matches_witness:
  "fastqc_collation_init ex_fs ex_walk ''/p'' (Some ''/p/out'') ''fastqc_data.txt'' '','' = Inr ex_collation
   \<and> sorted (fastqcfiles ex_collation)
   \<and> mset (rev ex_walk) = mset ex_walk
   \<and> fastqc_collation_init ex_fs (rev ex_walk) ''/p'' (Some ''/p/out'') ''fastqc_data.txt'' '','' = Inr ex_collation"
proof -
  have h: "fastqc_collation_init ex_fs ex_walk ''/p'' (Some ''/p/out'') ''fastqc_data.txt'' '',''
             = Inr ex_collation" by code_simp
  have m: "mset (rev ex_walk) = mset ex_walk" by simp
  note T = discovery_is_sorted_matches[OF h]
  from T have s: "sorted (fastqcfiles ex_collation)" by (rule conjunct1)
  from T have "\<forall>w'. mset w' = mset ex_walk \<longrightarrow>
      fastqc_collation_init ex_fs w' ''/p'' (Some ''/p/out'') ''fastqc_data.txt'' '','' = Inr ex_collation"
    by (elim conjE)
  with m have r: "fastqc_collation_init ex_fs (rev ex_walk) ''/p'' (Some ''/p/out'')
      ''fastqc_data.txt'' '','' = Inr ex_collation" by blast
  from h s m r show ?thesis by (intro conjI)
qed

theorem no_reports_is_an_error_witness:
  "fastqc_collation_init ex_fs ex_walk ''/p'' None ''fastqc.txt'' '','' = Inl IndexError
   \<and> \<not> not_found_error IndexError"
proof -
  have "\<forall>(rt, ds, fls) \<in> set ex_walk. ''fastqc.txt'' \<notin> set fls" by code_simp
  then show ?thesis by (rule no_reports_is_an_error)
qed

subsection \<open>Writing: the effect of one call\<close>

lemma open_write_frame:
  assumes "open_write fs p mode = Inr fs1"
  shows "dirs fs1 = dirs fs" "\<And>q. q \<noteq> p \<Longrightarrow> files fs1 q = files fs q"
    "files fs1 p = Some (case mode of W \<Rightarrow> [] | A \<Rightarrow> content fs p)"
    "p \<notin> dirs fs"
  using assms by (cases mode; auto simp: open_write_def content_def split: if_splits)+

lemma write_text_frame:
  "dirs (write_text fs p s) = dirs fs"
  "q \<noteq> p \<Longrightarrow> files (write_text fs p s) q = files fs q"
  "files (write_text fs p s) p = Some (content fs p @ s)"
  by (simp_all add: write_text_def content_def)

lemma open_then_write:
  assumes "open_write fs p mode = Inr fs1"
  shows "dirs (write_text fs1 p s) = dirs fs"
    "\<And>q. q \<noteq> p \<Longrightarrow> files (write_text fs1 p s) q = files fs q"
    "files (write_text fs1 p s) p = Some ((case mode of W \<Rightarrow> [] | A \<Rightarrow> content fs p) @ s)"
proof -
  note fr = open_write_frame[OF assms]
  show "dirs (write_text fs1 p s) = dirs fs" by (simp add: write_text_frame fr)
  show "files (write_text fs1 p s) q = files fs q" if "q \<noteq> p" for q
    using that by (simp add: write_text_frame fr)
  have "content fs1 p = (case mode of W \<Rightarrow> [] | A \<Rightarrow> content fs p)"
    by (simp add: content_def fr(3))
  then show "files (write_text fs1 p s) p = Some ((case mode of W \<Rightarrow> [] | A \<Rightarrow> content fs p) @ s)"
    by (simp add: write_text_frame)
qed

text \<open>The outcomes of a call of \<open>to_csv\<close>.\<close>

lemma to_csv_cases:
  obtains (open_failed) e where "open_write fs out mode = Inl e"
      "to_csv cs rows out sp header mode fs = (fs, Some e)"
    | (bad_sep) fs1 where "open_write fs out mode = Inr fs1" "\<nexists>d. sp = [d]"
      "to_csv cs rows out sp header mode fs = (fs1, Some TypeError)"
    | (written) fs1 d where "open_write fs out mode = Inr fs1" "sp = [d]"
      "to_csv cs rows out sp header mode fs =
         (write_text fs1 out ((if header then csv_line d cs else []) @ concat (map (csv_line d) rows)),
          None)"
proof (cases "open_write fs out mode")
  case (Inl e)
  then show ?thesis using open_failed by (simp add: to_csv_def)
next
  case (Inr fs1)
  show ?thesis
  proof (cases sp)
    case Nil
    with Inr show ?thesis using bad_sep by (simp add: to_csv_def)
  next
    case (Cons d rest)
    show ?thesis
    proof (cases rest)
      case Nil
      with Inr Cons show ?thesis using written by (simp add: to_csv_def)
    next
      case (Cons d' rest')
      with Inr \<open>sp = d # rest\<close> show ?thesis using bad_sep by (simp add: to_csv_def)
    qed
  qed
qed

text \<open>The outcomes of a call of \<open>process_mod\<close>: it raises before it opens the
  file, or the opening fails, or the csv writer refuses the separator after
  the file was opened, or the text is written.\<close>

lemma process_mod_cases:
  obtains (early) e where "process_mod c f qc m out mode fs = (fs, Inl e)"
      "m \<notin> set (coll_modules c) \<longrightarrow> e = KeyError ''Module not found.''"
    | (opened) fs1 where "m \<in> set (coll_modules c)" "open_write fs out mode = Inr fs1"
        "process_mod c f qc m out mode fs = (fs1, Inl TypeError)"
    | (written) fs1 md where "m \<in> set (coll_modules c)" "map_of (modules qc) m = Some md"
        "open_write fs out mode = Inr fs1"
        "process_mod c f qc m out mode fs =
           (write_text fs1 out
              ((if mode = W then header_text (sep c) (annotate f (filestub qc) (data md)) else [])
               @ body_text (sep c) (annotate f (filestub qc) (data md))),
            Inr (qc\<lparr>modules := AList.update m (md\<lparr>data := annotate f (filestub qc) (data md)\<rparr>)
                                  (modules qc)\<rparr>))"
proof (cases "m \<in> set (coll_modules c)")
  case False
  then show ?thesis using early by (simp add: process_mod_def)
next
  case known: True
  show ?thesis
  proof (cases "map_of (modules qc) m")
    case None
    with known show ?thesis using early by (simp add: process_mod_def)
  next
    case (Some md)
    let ?d = "annotate f (filestub qc) (data md)"
    let ?qc' = "qc\<lparr>modules := AList.update m (md\<lparr>data := ?d\<rparr>) (modules qc)\<rparr>"
    show ?thesis
    proof (cases "m = ''Basic Statistics''")
      case bs: True
      show ?thesis
      proof (cases ?d)
        case (DataFrame cs rows)
        with known Some bs show ?thesis using early
          by (simp add: process_mod_def annotate_def)
      next
        case (Series kvs)
        show ?thesis
        proof (cases "open_write fs out mode")
          case (Inl e)
          with known Some bs Series show ?thesis using early
            by (simp add: process_mod_def annotate_def)
        next
          case (Inr fs1)
          have "process_mod c f qc m out mode fs =
             (write_text fs1 out
                ((if mode = W then header_text (sep c) ?d else []) @ body_text (sep c) ?d),
              Inr ?qc')"
            using known Some bs Series Inr by (simp add: process_mod_def annotate_def Let_def)
          with known Some Inr show ?thesis using written by blast
        qed
      qed
    next
      case nbs: False
      show ?thesis
      proof (cases ?d)
        case (Series kvs)
        with known Some nbs show ?thesis using early
          by (simp add: process_mod_def annotate_def)
      next
        case (DataFrame cs rows)
        have "process_mod c f qc m out mode fs =
            (case to_csv cs rows out (sep c) (mode = W) mode fs of
               (fs', Some e) \<Rightarrow> (fs', Inl e)
             | (fs', None) \<Rightarrow>
                 (fs', Inr (qc\<lparr>modules := AList.update m (md\<lparr>data := DataFrame cs rows\<rparr>)
                                                (modules qc)\<rparr>)))"
          using known Some nbs DataFrame by (simp add: process_mod_def annotate_def Let_def)
        then have pm: "process_mod c f qc m out mode fs =
            (case to_csv cs rows out (sep c) (mode = W) mode fs of
               (fs', Some e) \<Rightarrow> (fs', Inl e)
             | (fs', None) \<Rightarrow> (fs', Inr ?qc'))"
          by (simp only: DataFrame)
        show ?thesis
        proof (cases cs rows out "sep c" "mode = W" mode fs rule: to_csv_cases)
          case (open_failed e)
          with pm show ?thesis using early known by simp
        next
          case (bad_sep fs1)
          with pm show ?thesis using opened known by simp
        next
          case (written fs1 d)
          with pm DataFrame have "process_mod c f qc m out mode fs =
             (write_text fs1 out
                ((if mode = W then header_text (sep c) ?d else []) @ body_text (sep c) ?d),
              Inr ?qc')" by simp
          with known Some written(1) show ?thesis using that(3) by blast
        qed
      qed
    qed
  qed
qed

subsection \<open>Writing: what the loops leave alone\<close>

lemma process_mod_frame:
  assumes "process_mod c f qc m out mode fs = (fs', r)"
  shows "dirs fs' = dirs fs"
    and "\<And>q. q \<noteq> out \<Longrightarrow> files fs' q = files fs q"
    and "\<And>q. isfile fs q \<Longrightarrow> isfile fs' q"
    and "m \<notin> set (coll_modules c) \<Longrightarrow> fs' = fs \<and> r = Inl (KeyError ''Module not found.'')"
proof -
  have "dirs fs' = dirs fs \<and> (\<forall>q. q \<noteq> out \<longrightarrow> files fs' q = files fs q)
        \<and> (\<forall>q. isfile fs q \<longrightarrow> isfile fs' q)
        \<and> (m \<notin> set (coll_modules c) \<longrightarrow> fs' = fs \<and> r = Inl (KeyError ''Module not found.''))"
  proof (cases rule: process_mod_cases[where c=c and f=f and qc=qc and m=m and out=out and mode=mode and fs=fs])
    case (early e)
    with assms show ?thesis by auto
  next
    case (opened fs1)
    note fr = open_write_frame[OF opened(2)]
    from opened assms have "fs' = fs1" by simp
    moreover have "isfile fs1 q" if "isfile fs q" for q
      using that fr(2)[of q] fr(3) by (cases "q = out") (auto simp: isfile_def)
    ultimately show ?thesis using fr opened(1) by simp
  next
    case (written fs1 md)
    note fr = open_then_write[OF written(3)]
    from written assms obtain s where fs': "fs' = write_text fs1 out s" by auto
    have "isfile fs' q" if "isfile fs q" for q
      using that fr(2)[of q s] fr(3)[of s] unfolding fs' by (cases "q = out") (auto simp: isfile_def)
    then show ?thesis using fr written(1) unfolding fs' by simp
  qed
  then show "dirs fs' = dirs fs"
    and "\<And>q. q \<noteq> out \<Longrightarrow> files fs' q = files fs q"
    and "\<And>q. isfile fs q \<Longrightarrow> isfile fs' q"
    and "m \<notin> set (coll_modules c) \<Longrightarrow> fs' = fs \<and> r = Inl (KeyError ''Module not found.'')"
    by blast+
qed

lemma process_mod_ok:
  assumes "process_mod c f qc m out mode fs = (fs', Inr qc')"
  shows "\<exists>md. m \<in> set (coll_modules c) \<and> map_of (modules qc) m = Some md
           \<and> qc' = qc\<lparr>modules := AList.update m (md\<lparr>data := annotate f (filestub qc) (data md)\<rparr>)
                                    (modules qc)\<rparr>
           \<and> files fs' out =
               Some ((case mode of W \<Rightarrow> [] | A \<Rightarrow> content fs out)
                     @ (if mode = W then header_text (sep c) (annotate f (filestub qc) (data md)) else [])
                     @ body_text (sep c) (annotate f (filestub qc) (data md)))"
proof (cases rule: process_mod_cases[where c=c and f=f and qc=qc and m=m and out=out and mode=mode and fs=fs])
  case (early e)
  with assms show ?thesis by simp
next
  case (opened fs1)
  with assms show ?thesis by simp
next
  case (written fs1 md)
  note fr = open_then_write[OF written(3)]
  from written(4) assms have "fs' = write_text fs1 out
      ((if mode = W then header_text (sep c) (annotate f (filestub qc) (data md)) else [])
       @ body_text (sep c) (annotate f (filestub qc) (data md)))"
    and "qc' = qc\<lparr>modules := AList.update m (md\<lparr>data := annotate f (filestub qc) (data md)\<rparr>)
                                    (modules qc)\<rparr>" by simp_all
  with written(1,2) fr(3) show ?thesis by simp
qed

lemma process_mod_ok_isfile:
  assumes "process_mod c f qc m out mode fs = (fs', Inr qc')"
  shows "isfile fs' out"
  using process_mod_ok[OF assms] by (auto simp: isfile_def)

text \<open>The loop over the modules.\<close>

lemma process_modules_frame:
  assumes "process_modules c f qc ms fs = (fs', r)"
  shows "dirs fs' = dirs fs"
    and "\<And>q. q \<notin> out_file c ` (set ms \<inter> set (coll_modules c)) \<Longrightarrow> files fs' q = files fs q"
    and "\<And>q. isfile fs q \<Longrightarrow> isfile fs' q"
proof -
  have "dirs fs' = dirs fs
        \<and> (\<forall>q. q \<notin> out_file c ` (set ms \<inter> set (coll_modules c)) \<longrightarrow> files fs' q = files fs q)
        \<and> (\<forall>q. isfile fs q \<longrightarrow> isfile fs' q)"
    using assms
  proof (induction ms arbitrary: qc fs)
    case Nil
    then show ?case by simp
  next
    case (Cons m ms)
    let ?mode = "if isfile fs (out_file c m) then A else W"
    obtain fs1 r1 where pm: "process_mod c f qc m (out_file c m) ?mode fs = (fs1, r1)"
      by (cases "process_mod c f qc m (out_file c m) ?mode fs") auto
    note fr = process_mod_frame[OF pm]
    have step: "dirs fs1 = dirs fs
        \<and> (\<forall>q. q \<notin> out_file c ` (set (m # ms) \<inter> set (coll_modules c)) \<longrightarrow> files fs1 q = files fs q)
        \<and> (\<forall>q. isfile fs q \<longrightarrow> isfile fs1 q)"
    proof (cases "m \<in> set (coll_modules c)")
      case True
      then show ?thesis using fr(1,2,3) by auto
    next
      case False
      then show ?thesis using fr(4) by simp
    qed
    show ?case
    proof (cases r1)
      case (Inl e)
      with pm Cons.prems have "fs' = fs1" by simp
      with step show ?thesis by simp
    next
      case (Inr qc1)
      with pm Cons.prems have "process_modules c f qc1 ms fs1 = (fs', r)" by simp
      from Cons.IH[OF this] step show ?thesis by auto
    qed
  qed
  then show "dirs fs' = dirs fs"
    and "\<And>q. q \<notin> out_file c ` (set ms \<inter> set (coll_modules c)) \<Longrightarrow> files fs' q = files fs q"
    and "\<And>q. isfile fs q \<Longrightarrow> isfile fs' q"
    by blast+
qed

lemma process_modules_ok:
  assumes "process_modules c f qc ms fs = (fs', Inr qc')"
  shows "set ms \<subseteq> set (coll_modules c)" and "\<And>m. m \<in> set ms \<Longrightarrow> isfile fs' (out_file c m)"
proof -
  have "set ms \<subseteq> set (coll_modules c) \<and> (\<forall>m\<in>set ms. isfile fs' (out_file c m))"
    using assms
  proof (induction ms arbitrary: qc fs)
    case Nil
    then show ?case by simp
  next
    case (Cons m ms)
    let ?mode = "if isfile fs (out_file c m) then A else W"
    obtain fs1 r1 where pm: "process_mod c f qc m (out_file c m) ?mode fs = (fs1, r1)"
      by (cases "process_mod c f qc m (out_file c m) ?mode fs") auto
    with Cons.prems obtain qc1 where r1: "r1 = Inr qc1"
      and rest: "process_modules c f qc1 ms fs1 = (fs', Inr qc')"
      by (cases r1) auto
    have known: "m \<in> set (coll_modules c)"
      using process_mod_frame(4)[OF pm] r1 by auto
    have "isfile fs1 (out_file c m)"
      using process_mod_ok_isfile pm r1 by blast
    then have "isfile fs' (out_file c m)"
      by (rule process_modules_frame(3)[OF rest])
    with Cons.IH[OF rest] known show ?case by simp
  qed
  then show "set ms \<subseteq> set (coll_modules c)" and "\<And>m. m \<in> set ms \<Longrightarrow> isfile fs' (out_file c m)"
    by blast+
qed

text \<open>The loop over the report files.\<close>

lemma process_files_frame:
  assumes "process_files c ms fl fs = (fs', r)"
  shows "dirs fs' = dirs fs"
    and "\<And>q. q \<notin> out_file c ` (set ms \<inter> set (coll_modules c)) \<Longrightarrow> files fs' q = files fs q"
    and "\<And>q. isfile fs q \<Longrightarrow> isfile fs' q"
proof -
  have "dirs fs' = dirs fs
        \<and> (\<forall>q. q \<notin> out_file c ` (set ms \<inter> set (coll_modules c)) \<longrightarrow> files fs' q = files fs q)
        \<and> (\<forall>q. isfile fs q \<longrightarrow> isfile fs' q)"
    using assms
  proof (induction fl arbitrary: fs)
    case Nil
    then show ?case by simp
  next
    case (Cons f fl)
    show ?case
    proof (cases "fastqc_report_init fs f")
      case (Inl e)
      with Cons.prems show ?thesis by simp
    next
      case (Inr qc)
      obtain fs1 r1 where pms: "process_modules c f qc ms fs = (fs1, r1)"
        by (cases "process_modules c f qc ms fs") auto
      note fr = process_modules_frame[OF pms]
      show ?thesis
      proof (cases r1)
        case (Inl e)
        with Inr pms Cons.prems have "fs' = fs1" by simp
        with fr show ?thesis by simp
      next
        case r1: (Inr qc1)
        with Inr pms Cons.prems have "process_files c ms fl fs1 = (fs', r)" by simp
        from Cons.IH[OF this] fr show ?thesis by auto
      qed
    qed
  qed
  then show "dirs fs' = dirs fs"
    and "\<And>q. q \<notin> out_file c ` (set ms \<inter> set (coll_modules c)) \<Longrightarrow> files fs' q = files fs q"
    and "\<And>q. isfile fs q \<Longrightarrow> isfile fs' q"
    by blast+
qed

lemma process_files_ok:
  assumes "process_files c ms (f # fl) fs = (fs', None)"
  shows "set ms \<subseteq> set (coll_modules c)" and "\<And>m. m \<in> set ms \<Longrightarrow> isfile fs' (out_file c m)"
proof -
  from assms obtain qc where qc: "fastqc_report_init fs f = Inr qc"
    by (cases "fastqc_report_init fs f") auto
  obtain fs1 r1 where pms: "process_modules c f qc ms fs = (fs1, r1)"
    by (cases "process_modules c f qc ms fs") auto
  with qc assms obtain qc1 where r1: "r1 = Inr qc1"
    and rest: "process_files c ms fl fs1 = (fs', None)"
    by (cases r1) auto
  from process_modules_ok[OF pms[unfolded r1]]
  show "set ms \<subseteq> set (coll_modules c)" by simp
  show "isfile fs' (out_file c m)" if "m \<in> set ms" for m
    using process_modules_ok(2)[OF pms[unfolded r1] that] process_files_frame(3)[OF rest] by blast
qed

lemma remove_old_frame:
  "dirs (remove_old c ms fs) = dirs fs"
  "files (remove_old c ms fs) q = (if q \<in> out_file c ` set ms then None else files fs q)"
proof -
  show "dirs (remove_old c ms fs) = dirs fs"
    by (induction ms arbitrary: fs) (simp_all add: remove_file_def)
  show "files (remove_old c ms fs) q = (if q \<in> out_file c ` set ms then None else files fs q)"
    by (induction ms arbitrary: fs) (auto simp: remove_file_def isfile_def)
qed

lemma filesys_eqI:
  fixes a b :: filesys
  shows "files a = files b \<Longrightarrow> dirs a = dirs b \<Longrightarrow> a = b"
  by simp

subsection \<open>Running twice\<close>

lemma make_sure_path_exists_cases:
  assumes "make_sure_path_exists c fs = Inr fs1"
  shows "files fs1 = files fs" and "dirs fs \<subseteq> dirs fs1"
    and "out_dir c \<in> dirs fs1 \<or> (fs1 = fs \<and> isfile fs (out_dir c))"
proof -
  have "files fs1 = files fs \<and> dirs fs \<subseteq> dirs fs1
        \<and> (out_dir c \<in> dirs fs1 \<or> (fs1 = fs \<and> isfile fs (out_dir c)))"
    using assms
    by (auto simp: make_sure_path_exists_def makedirs_def split: sum.splits if_splits)
  then show "files fs1 = files fs" and "dirs fs \<subseteq> dirs fs1"
    and "out_dir c \<in> dirs fs1 \<or> (fs1 = fs \<and> isfile fs (out_dir c))" by blast+
qed

lemma make_sure_path_exists_again:
  assumes "out_dir c \<in> dirs fs \<or> isfile fs (out_dir c)"
  shows "make_sure_path_exists c fs = Inr fs"
  using assms by (auto simp: make_sure_path_exists_def makedirs_def)

text \<open>
  Claim C6. When a run of \<^verbatim>\<open>process\<close> has completed, a second run with the
  same object and argument on the file system the first one left completes
  too and leaves every file and directory as it found it: the output files
  are the same, byte for byte. The reason is in the second part: once the
  first loop of \<^verbatim>\<open>process\<close> is over, no output file of a requested module
  exists, so nothing of an earlier run is appended to.
\<close>

theorem second_run_changes_nothing:
  assumes run: "process c arg fs = (fs', None)"
    and files: "fastqcfiles c \<noteq> []"
  shows "process c arg fs' = (fs', None)
         \<and> (\<forall>fs1. make_sure_path_exists c fs = Inr fs1 \<longrightarrow>
               (\<forall>m \<in> set (requested c arg).
                  \<not> isfile (remove_old c (requested c arg) fs1) (out_file c m)))"
proof
  let ?ms = "requested c arg"
  from run obtain fs1 where mk: "make_sure_path_exists c fs = Inr fs1"
    and pf: "process_files c ?ms (fastqcfiles c) (remove_old c ?ms fs1) = (fs', None)"
    by (auto simp: process_def split: sum.splits)
  let ?R = "remove_old c ?ms fs1"
  note fr = process_files_frame[OF pf]
  from files obtain f fl where fl: "fastqcfiles c = f # fl" by (cases "fastqcfiles c") auto
  note ok = process_files_ok[OF pf[unfolded fl]]
  have dirs': "dirs fs' = dirs fs1" by (simp add: fr(1) remove_old_frame)
  have outside: "files fs' q = files fs1 q" if "q \<notin> out_file c ` set ?ms" for q
  proof -
    from that have "q \<notin> out_file c ` (set ?ms \<inter> set (coll_modules c))" by auto
    from fr(2)[OF this] that show ?thesis by (simp add: remove_old_frame)
  qed
  have again: "make_sure_path_exists c fs' = Inr fs'"
  proof (rule make_sure_path_exists_again)
    from make_sure_path_exists_cases(3)[OF mk]
    show "out_dir c \<in> dirs fs' \<or> isfile fs' (out_dir c)"
    proof
      assume "out_dir c \<in> dirs fs1"
      then show ?thesis by (simp add: dirs')
    next
      assume a: "fs1 = fs \<and> isfile fs (out_dir c)"
      show ?thesis
      proof (cases "out_dir c \<in> out_file c ` set ?ms")
        case True
        then obtain m where "m \<in> set ?ms" "out_dir c = out_file c m" by auto
        with ok(2)[of m] show ?thesis by simp
      next
        case False
        from outside[OF this] a show ?thesis by (simp add: isfile_def)
      qed
    qed
  qed
  have "remove_old c ?ms fs' = ?R"
  proof (rule filesys_eqI)
    show "files (remove_old c ?ms fs') = files ?R"
      by (rule ext) (simp add: remove_old_frame outside)
    show "dirs (remove_old c ?ms fs') = dirs ?R"
      by (simp add: remove_old_frame dirs')
  qed
  with again pf show "process c arg fs' = (fs', None)"
    by (simp add: process_def)
  show "\<forall>fs1. make_sure_path_exists c fs = Inr fs1 \<longrightarrow>
               (\<forall>m \<in> set (requested c arg).
                  \<not> isfile (remove_old c (requested c arg) fs1) (out_file c m))"
    by (simp add: isfile_def remove_old_frame)
qed

theorem second_run_changes_nothing_witness:
  "snd (process ex_collation NoModules ex_fs_stale) = None
   \<and> fastqcfiles ex_collation \<noteq> []
   \<and> process ex_collation NoModules (fst (process ex_collation NoModules ex_fs_stale)) =
       (fst (process ex_collation NoModules ex_fs_stale), None)
   \<and> files (fst (process ex_collation NoModules ex_fs_stale))
        ''/p/out/Quality_fastqc_collation.csv'' =
       Some (''Base,Mean,Filestub,Filepath'' @ [nl]
             @ ''1,30,sample1,/p/A/fastqc_data.txt'' @ [nl]
             @ ''2,31,sample1,/p/A/fastqc_data.txt'' @ [nl]
             @ ''1,28,sample2,/p/B/fastqc_data.txt'' @ [nl]
             @ ''2,29,sample2,/p/B/fastqc_data.txt'' @ [nl])"
proof -
  have 1: "snd (process ex_collation NoModules ex_fs_stale) = None" by code_simp
  have 2: "fastqcfiles ex_collation \<noteq> []" by code_simp
  have 3: "files (fst (process ex_collation NoModules ex_fs_stale))
        ''/p/out/Quality_fastqc_collation.csv'' =
       Some (''Base,Mean,Filestub,Filepath'' @ [nl]
             @ ''1,30,sample1,/p/A/fastqc_data.txt'' @ [nl]
             @ ''2,31,sample1,/p/A/fastqc_data.txt'' @ [nl]
             @ ''1,28,sample2,/p/B/fastqc_data.txt'' @ [nl]
             @ ''2,29,sample2,/p/B/fastqc_data.txt'' @ [nl])" by code_simp
  from 1 have h: "process ex_collation NoModules ex_fs_stale =
      (fst (process ex_collation NoModules ex_fs_stale), None)"
    by (metis prod.collapse)
  from second_run_changes_nothing[OF h 2]
  have "process ex_collation NoModules (fst (process ex_collation NoModules ex_fs_stale)) =
       (fst (process ex_collation NoModules ex_fs_stale), None)" by (rule conjunct1)
  with 1 2 3 show ?thesis by (intro conjI)
qed

subsection \<open>A module that the first report does not have\<close>




subsection \<open>Lines of text\<close>

lemma readlines_line_cons:
  "nl \<notin> set b \<Longrightarrow> readlines (b @ nl # rest) = (b @ [nl]) # readlines rest"
  by (induction b) auto

lemma is_line_decomp: "is_line l \<Longrightarrow> \<exists>b. l = b @ [nl] \<and> nl \<notin> set b"
  by (metis is_line_def append_butlast_last_id)

lemma is_lineI: "nl \<notin> set b \<Longrightarrow> is_line (b @ [nl])"
  by (simp add: is_line_def)

lemma readlines_line_append:
  assumes "is_line l"
  shows "readlines (l @ rest) = l # readlines rest"
proof -
  from is_line_decomp[OF assms] obtain b where "l = b @ [nl]" "nl \<notin> set b" by blast
  then show ?thesis using readlines_line_cons[of b rest] by simp
qed

lemma readlines_concat_lines:
  "list_all is_line ls \<Longrightarrow> readlines (concat ls @ rest) = ls @ readlines rest"
  by (induction ls) (simp_all add: readlines_line_append)

lemma join_with_set: "set (join_with sp xs) \<subseteq> set sp \<union> \<Union> (set ` set xs)"
  by (induction sp xs rule: join_with.induct) auto

lemma join_with_no_newline:
  "nl \<notin> set sp \<Longrightarrow> no_newline xs \<Longrightarrow> nl \<notin> set (join_with sp xs)"
  using join_with_set[of sp xs] by (auto simp: no_newline_def list_all_iff)

lemma csv_field_no_newline: "nl \<notin> set s \<Longrightarrow> nl \<notin> set (csv_field d s)"
  by (auto simp: csv_field_def nl_def)

lemma csv_line_is_line:
  assumes "d \<noteq> nl" "no_newline r"
  shows "is_line (csv_line d r)"
proof -
  have "no_newline (map (csv_field d) r)"
    using assms(2) by (auto simp: no_newline_def list_all_iff csv_field_no_newline)
  then have "nl \<notin> set (join_with [d] (map (csv_field d) r))"
    using assms(1) by (intro join_with_no_newline) auto
  then show ?thesis unfolding csv_line_def by (rule is_lineI)
qed

text \<open>The header is one line, the data lines are as many as the records.\<close>

lemma header_text_is_line:
  assumes "nl \<notin> set sp" "data_no_newline d" "sp \<noteq> []"
  shows "is_line (header_text sp d)"
proof (cases d)
  case (Series kvs)
  with assms join_with_no_newline[of sp "map fst kvs"] show ?thesis
    by (auto intro!: is_lineI)
next
  case (DataFrame cs rows)
  from assms(1,3) have "hd sp \<noteq> nl" by (cases sp) auto
  with DataFrame assms(2) show ?thesis by (simp add: csv_line_is_line)
qed

lemma header_text_is_line_series:
  assumes "nl \<notin> set sp" "data_no_newline (Series kvs)"
  shows "is_line (header_text sp (Series kvs))"
  using assms join_with_no_newline[of sp "map fst kvs"] by (auto intro!: is_lineI)

lemma body_text_lines:
  assumes "nl \<notin> set sp" "data_no_newline d" "sp \<noteq> [] \<or> (\<exists>kvs. d = Series kvs)"
  shows "\<exists>ls. body_text sp d = concat ls \<and> list_all is_line ls \<and> length ls = data_rows d"
proof (cases d)
  case (Series kvs)
  with assms join_with_no_newline[of sp "map snd kvs"] have "is_line (body_text sp d)"
    by (auto intro!: is_lineI)
  with Series show ?thesis by (intro exI[of _ "[body_text sp d]"]) simp
next
  case (DataFrame cs rows)
  with assms(3) have "sp \<noteq> []" by auto
  with assms(1) have "hd sp \<noteq> nl" by (cases sp) auto
  with DataFrame assms(2) have "list_all is_line (map (csv_line (hd sp)) rows)"
    by (auto simp: list_all_iff csv_line_is_line)
  with DataFrame show ?thesis by (intro exI[of _ "map (csv_line (hd sp)) rows"]) simp
qed

subsection \<open>A whole run\<close>







subsection \<open>A module that the first report does not have: the run\<close>






subsection \<open>The data written\<close>

lemma set_item_no_newline:
  assumes "data_no_newline d" "nl \<notin> set k" "nl \<notin> set v"
  shows "data_no_newline (set_item k v d)"
proof (cases d)
  case (Series kvs)
  with assms show ?thesis by (auto simp: no_newline_def list_all_iff)
next
  case (DataFrame cs rows)
  have "no_newline (map (\<lambda>cx. if fst cx = k then v else snd cx) (zip cs r))"
    if "no_newline r" for r
    using that assms(3) by (auto simp: no_newline_def list_all_iff dest: set_zip_rightD)
  with DataFrame assms show ?thesis by (auto simp: no_newline_def list_all_iff)
qed

lemma set_item_rows: "data_rows (set_item k v d) = data_rows d"
  by (cases d) auto

lemma annotate_rows: "data_rows (annotate f stub d) = data_rows d"
  by (simp add: annotate_def set_item_rows)

lemma annotate_no_newline:
  assumes "data_no_newline d" "nl \<notin> set f" "nl \<notin> set stub"
  shows "data_no_newline (annotate f stub d)"
  unfolding annotate_def
  by (intro set_item_no_newline assms) (simp_all add: nl_def)

lemma data_inv_no_newline:
  assumes "data_inv no_newline no_newline d"
  shows "data_no_newline d"
proof (cases d)
  case (DataFrame cs rows)
  with assms show ?thesis by simp
next
  case (Series kvs)
  with assms obtain ls where ls: "list_all no_newline ls" "list_all (\<lambda>r. 2 \<le> length r) ls"
    "kvs = map (\<lambda>r. (r ! 0, r ! 1)) ls" by auto
  have "nl \<notin> set (r ! 0) \<and> nl \<notin> set (r ! 1)" if "r \<in> set ls" for r
  proof -
    from that ls(1,2) have "no_newline r" "0 < length r" "1 < length r"
      by (auto simp: list_all_iff)
    then show ?thesis by (auto simp: no_newline_def list_all_iff)
  qed
  with Series ls(3) show ?thesis by (auto simp: no_newline_def list_all_iff)
qed

lemma re_sub_line_subset: "set (re_sub_line s) \<subseteq> set s"
proof (cases "stub_greedy (length s) s")
  case None
  then show ?thesis by (simp add: re_sub_line_def)
next
  case (Some g)
  from stub_greedy_Some[OF this] obtain i where "g = take i s" by blast
  with Some show ?thesis by (auto simp: re_sub_line_def dest: in_set_takeD)
qed

lemma report_filestub_no_newline:
  assumes "fastqc_report_init fs path = Inr r"
  shows "nl \<notin> set (filestub r)"
proof -
  have n: "nl \<notin> set (filename r)" by (rule report_filename_no_newline[OF assms])
  have "filestub r = re_sub_fastq (filename r)" by (rule report_filestub[OF assms])
  also have "\<dots> = re_sub_line (filename r)" by (rule re_sub_fastq_line[OF n])
  finally have "set (filestub r) \<subseteq> set (filename r)" by (simp only: re_sub_line_subset)
  with n show ?thesis by blast
qed

lemma report_modules_no_newline:
  assumes "fastqc_report_init fs path = Inr r"
  shows "modules_inv no_newline no_newline (modules r)"
proof -
  from assms obtain t mods where t: "process_fastqc_report t = Inr mods"
    and r: "process_basic_stats path mods = Inr r"
    by (auto simp: fastqc_report_init_def split: option.splits sum.splits)
  from r have "modules r = mods"
    by (auto simp: process_basic_stats_def split: option.splits mod_data.splits sum.splits)
  with parsed_modules_inv(2)[OF t] show ?thesis by simp
qed

lemma module_data_no_newline:
  assumes "module_data fs f m = Some d" "nl \<notin> set f"
  shows "data_no_newline d"
proof -
  from assms(1) obtain qc where qc: "fastqc_report_init fs f = Inr qc"
    by (cases "fastqc_report_init fs f") (simp_all add: module_data_def)
  with assms(1) obtain md where md: "map_of (modules qc) m = Some md"
    and d: "d = annotate f (filestub qc) (data md)"
    by (cases "map_of (modules qc) m") (simp_all add: module_data_def)
  have "data_inv no_newline no_newline (data md)"
    using report_modules_no_newline[OF qc] md by (simp add: modules_inv_def)
  then have "data_no_newline (data md)" by (rule data_inv_no_newline)
  then show ?thesis unfolding d
    by (rule annotate_no_newline) (rule assms(2), rule report_filestub_no_newline[OF qc])
qed

lemma report_init_cong:
  "files fs1 f = files fs f \<Longrightarrow> fastqc_report_init fs1 f = fastqc_report_init fs f"
  by (simp add: fastqc_report_init_def)

lemma module_data_cong:
  assumes "files fs1 f = files fs f"
  shows "module_data fs1 f m = module_data fs f m"
  unfolding module_data_def report_init_cong[OF assms] ..

text \<open>A call of \<open>process_mod\<close> that returns has written a key-value record for
  \<^verbatim>\<open>'Basic Statistics'\<close>, and for another module a table with a separator of
  one character.\<close>

lemma process_mod_ok_shape:
  assumes "process_mod c f qc m out mode fs = (fs', Inr qc')"
    and "map_of (modules qc) m = Some md"
  shows "(m = ''Basic Statistics'' \<longrightarrow> (\<exists>kvs. annotate f (filestub qc) (data md) = Series kvs))
         \<and> (m \<noteq> ''Basic Statistics'' \<longrightarrow> (\<exists>dch. sep c = [dch]))"
proof (cases "m \<in> set (coll_modules c)")
  case False
  with assms show ?thesis by (simp add: process_mod_def)
next
  case known: True
  let ?d = "annotate f (filestub qc) (data md)"
  show ?thesis
  proof (cases "m = ''Basic Statistics''")
    case bs: True
    show ?thesis
    proof (cases ?d)
      case (Series kvs)
      with bs show ?thesis by simp
    next
      case (DataFrame cs rows)
      with known bs assms show ?thesis by (simp add: process_mod_def annotate_def)
    qed
  next
    case nbs: False
    show ?thesis
    proof (cases ?d)
      case (Series kvs)
      with known nbs assms show ?thesis by (simp add: process_mod_def annotate_def)
    next
      case (DataFrame cs rows)
      have pm: "process_mod c f qc m out mode fs =
            (case to_csv cs rows out (sep c) (mode = W) mode fs of
               (fs', Some e) \<Rightarrow> (fs', Inl e)
             | (fs', None) \<Rightarrow>
                 (fs', Inr (qc\<lparr>modules := AList.update m (md\<lparr>data := DataFrame cs rows\<rparr>)
                                                (modules qc)\<rparr>)))"
        using known assms(2) nbs DataFrame by (simp add: process_mod_def annotate_def Let_def)
      show ?thesis
      proof (cases rule: to_csv_cases[where cs=cs and rows=rows and out=out and sp="sep c"
                 and header="mode = W" and mode=mode and fs=fs])
        case (open_failed e)
        with pm assms(1) show ?thesis by simp
      next
        case (bad_sep fs1)
        with pm assms(1) show ?thesis by simp
      next
        case (written fs1 d)
        with nbs show ?thesis by simp
      qed
    qed
  qed
qed

lemma process_mod_ok_report:
  assumes "process_mod c f qc m out mode fs = (fs', Inr qc')"
  shows "filestub qc' = filestub qc" and "\<And>k. k \<noteq> m \<Longrightarrow> map_of (modules qc') k = map_of (modules qc) k"
proof -
  from process_mod_ok[OF assms] obtain md where
    qc': "qc' = qc\<lparr>modules := AList.update m (md\<lparr>data := annotate f (filestub qc) (data md)\<rparr>)
                                    (modules qc)\<rparr>" by blast
  show "filestub qc' = filestub qc" by (simp add: qc')
  show "map_of (modules qc') k = map_of (modules qc) k" if "k \<noteq> m" for k
    using that by (simp add: qc' update_conv')
qed



text \<open>The output file of a module after the modules of one report were written:
  what was there, or the header, and then the data lines of the report.\<close>

lemma process_modules_content:
  assumes "process_modules c f qc ms fs = (fs', Inr qc')"
    and "distinct (map (out_file c) ms)" and "m \<in> set ms"
  shows "\<exists>md. map_of (modules qc) m = Some md
           \<and> files fs' (out_file c m) =
               Some ((if isfile fs (out_file c m) then content fs (out_file c m)
                      else header_text (sep c) (annotate f (filestub qc) (data md)))
                     @ body_text (sep c) (annotate f (filestub qc) (data md)))
           \<and> (m = ''Basic Statistics'' \<longrightarrow> (\<exists>kvs. annotate f (filestub qc) (data md) = Series kvs))
           \<and> (m \<noteq> ''Basic Statistics'' \<longrightarrow> (\<exists>dch. sep c = [dch]))"
  using assms
proof (induction ms arbitrary: qc fs)
  case Nil
  then show ?case by simp
next
  case (Cons k ms)
  let ?mode = "if isfile fs (out_file c k) then A else W"
  obtain fs1 r1 where pm: "process_mod c f qc k (out_file c k) ?mode fs = (fs1, r1)"
    by (cases "process_mod c f qc k (out_file c k) ?mode fs") blast
  from Cons.prems(1) pm obtain qc1 where r1: "r1 = Inr qc1"
    and rest: "process_modules c f qc1 ms fs1 = (fs', Inr qc')"
    by (cases r1) auto
  note pmo = pm[unfolded r1]
  show ?case
  proof (cases "k = m")
    case True
    from process_mod_ok[OF pmo] obtain md where md: "map_of (modules qc) k = Some md"
      and w: "files fs1 (out_file c k) =
               Some ((case ?mode of W \<Rightarrow> [] | A \<Rightarrow> content fs (out_file c k))
                     @ (if ?mode = W then header_text (sep c) (annotate f (filestub qc) (data md)) else [])
                     @ body_text (sep c) (annotate f (filestub qc) (data md)))"
      by blast
    have untouched: "files fs' (out_file c k) = files fs1 (out_file c k)"
    proof (rule process_modules_frame(2)[OF rest])
      from Cons.prems(2) show "out_file c k \<notin> out_file c ` (set ms \<inter> set (coll_modules c))"
        by auto
    qed
    have w': "files fs' (out_file c k) =
               Some ((if isfile fs (out_file c k) then content fs (out_file c k)
                      else header_text (sep c) (annotate f (filestub qc) (data md)))
                     @ body_text (sep c) (annotate f (filestub qc) (data md)))"
      unfolding untouched w by simp
    note shape = process_mod_ok_shape[OF pmo md]
    from md w' shape show ?thesis unfolding True[symmetric] by blast
  next
    case False
    with Cons.prems(3) have m_in: "m \<in> set ms" by simp
    from Cons.prems(2) have dist: "distinct (map (out_file c) ms)" by simp
    from Cons.prems(2) have "out_file c k \<notin> out_file c ` set ms" by simp
    with m_in have ne: "out_file c m \<noteq> out_file c k" by (metis imageI)
    from Cons.IH[OF rest dist m_in] obtain md where md: "map_of (modules qc1) m = Some md"
      and w: "files fs' (out_file c m) =
               Some ((if isfile fs1 (out_file c m) then content fs1 (out_file c m)
                      else header_text (sep c) (annotate f (filestub qc1) (data md)))
                     @ body_text (sep c) (annotate f (filestub qc1) (data md)))"
      and shape: "m = ''Basic Statistics'' \<longrightarrow> (\<exists>kvs. annotate f (filestub qc1) (data md) = Series kvs)"
         "m \<noteq> ''Basic Statistics'' \<longrightarrow> (\<exists>dch. sep c = [dch])"
      by blast
    have 1: "map_of (modules qc1) m = map_of (modules qc) m"
      by (rule process_mod_ok_report(2)[OF pmo]) (use False in simp)
    have 2: "filestub qc1 = filestub qc" by (rule process_mod_ok_report(1)[OF pmo])
    have 3: "files fs1 (out_file c m) = files fs (out_file c m)"
      by (rule process_mod_frame(2)[OF pm ne])
    then have 4: "isfile fs1 (out_file c m) = isfile fs (out_file c m)"
      "content fs1 (out_file c m) = content fs (out_file c m)"
      by (simp_all add: isfile_def content_def)
    from md w shape show ?thesis unfolding 1 2 4 by blast
  qed
qed

text \<open>The output file of a module after all the reports were written: what was
  there, or the header of the first report, and then the data lines of each
  report in turn.\<close>

lemma process_files_content:
  assumes "process_files c ms (f # fl) fs = (fs', None)"
    and "distinct (map (out_file c) ms)" and "m \<in> set ms"
    and "\<forall>k\<in>set ms. out_file c k \<notin> set (f # fl)"
  shows "\<exists>d ds. list_all2 (\<lambda>g e. module_data fs g m = Some e) (f # fl) (d # ds)
           \<and> files fs' (out_file c m) =
               Some ((if isfile fs (out_file c m) then content fs (out_file c m)
                      else header_text (sep c) d)
                     @ concat (map (body_text (sep c)) (d # ds)))
           \<and> (m = ''Basic Statistics'' \<longrightarrow> (\<forall>e\<in>set (d # ds). \<exists>kvs. e = Series kvs))
           \<and> (m \<noteq> ''Basic Statistics'' \<longrightarrow> (\<exists>dch. sep c = [dch]))"
  using assms
proof (induction fl arbitrary: f fs fs')
  case Nil
  from Nil.prems(1) obtain qc qc1 where qc: "fastqc_report_init fs f = Inr qc"
    and pms: "process_modules c f qc ms fs = (fs', Inr qc1)"
    by (auto split: sum.splits prod.splits)
  from process_modules_content[OF pms Nil.prems(2,3)] obtain md where
    md: "map_of (modules qc) m = Some md"
    and w: "files fs' (out_file c m) =
               Some ((if isfile fs (out_file c m) then content fs (out_file c m)
                      else header_text (sep c) (annotate f (filestub qc) (data md)))
                     @ body_text (sep c) (annotate f (filestub qc) (data md)))"
    and shape: "m = ''Basic Statistics'' \<longrightarrow> (\<exists>kvs. annotate f (filestub qc) (data md) = Series kvs)"
       "m \<noteq> ''Basic Statistics'' \<longrightarrow> (\<exists>dch. sep c = [dch])"
    by blast
  let ?d = "annotate f (filestub qc) (data md)"
  have d: "module_data fs f m = Some ?d" by (simp add: module_data_def qc md)
  have "list_all2 (\<lambda>g e. module_data fs g m = Some e) [f] [?d]" using d by simp
  moreover have "files fs' (out_file c m) =
               Some ((if isfile fs (out_file c m) then content fs (out_file c m)
                      else header_text (sep c) ?d)
                     @ concat (map (body_text (sep c)) [?d]))"
    using w by simp
  moreover have "m = ''Basic Statistics'' \<longrightarrow> (\<forall>e\<in>set [?d]. \<exists>kvs. e = Series kvs)"
    using shape(1) by simp
  ultimately show ?case using shape(2) by blast
next
  case (Cons g fl)
  from Cons.prems(1) obtain qc qc1 fs1 where qc: "fastqc_report_init fs f = Inr qc"
    and pms: "process_modules c f qc ms fs = (fs1, Inr qc1)"
    and rest: "process_files c ms (g # fl) fs1 = (fs', None)"
    by (auto split: sum.splits prod.splits)
  from process_modules_content[OF pms Cons.prems(2,3)] obtain md where
    md: "map_of (modules qc) m = Some md"
    and w: "files fs1 (out_file c m) =
               Some ((if isfile fs (out_file c m) then content fs (out_file c m)
                      else header_text (sep c) (annotate f (filestub qc) (data md)))
                     @ body_text (sep c) (annotate f (filestub qc) (data md)))"
    and shape: "m = ''Basic Statistics'' \<longrightarrow> (\<exists>kvs. annotate f (filestub qc) (data md) = Series kvs)"
    by blast
  let ?d = "annotate f (filestub qc) (data md)"
  let ?base = "if isfile fs (out_file c m) then content fs (out_file c m)
                      else header_text (sep c) ?d"
  have d: "module_data fs f m = Some ?d" by (simp add: module_data_def qc md)
  have apart: "\<forall>k\<in>set ms. out_file c k \<notin> set (g # fl)" using Cons.prems(4) by simp
  from Cons.IH[OF rest Cons.prems(2,3) apart] obtain d' ds' where
    all2: "list_all2 (\<lambda>h e. module_data fs1 h m = Some e) (g # fl) (d' # ds')"
    and w2: "files fs' (out_file c m) =
               Some ((if isfile fs1 (out_file c m) then content fs1 (out_file c m)
                      else header_text (sep c) d')
                     @ concat (map (body_text (sep c)) (d' # ds')))"
    and shape2: "m = ''Basic Statistics'' \<longrightarrow> (\<forall>e\<in>set (d' # ds'). \<exists>kvs. e = Series kvs)"
       "m \<noteq> ''Basic Statistics'' \<longrightarrow> (\<exists>dch. sep c = [dch])"
    by blast
  have there: "isfile fs1 (out_file c m)" by (rule process_modules_ok(2)[OF pms Cons.prems(3)])
  have old: "content fs1 (out_file c m) = ?base @ body_text (sep c) ?d"
    by (simp only: content_def w option.case)
  have same: "module_data fs1 h m = module_data fs h m" if "h \<in> set (g # fl)" for h
  proof (rule module_data_cong, rule process_modules_frame(2)[OF pms])
    from that Cons.prems(4) show "h \<notin> out_file c ` (set ms \<inter> set (coll_modules c))" by auto
  qed
  have all2': "list_all2 (\<lambda>h e. module_data fs h m = Some e) (g # fl) (d' # ds')"
    by (rule list.rel_mono_strong[OF all2]) (simp only: same)
  have 1: "list_all2 (\<lambda>h e. module_data fs h m = Some e) (f # g # fl) (?d # d' # ds')"
    using d all2' by simp
  have 2: "files fs' (out_file c m) =
               Some (?base @ concat (map (body_text (sep c)) (?d # d' # ds')))"
    unfolding w2 using there old by simp
  have 3: "m = ''Basic Statistics'' \<longrightarrow> (\<forall>e\<in>set (?d # d' # ds'). \<exists>kvs. e = Series kvs)"
    using shape shape2(1) by simp
  from 1 2 3 shape2(2) show ?case by blast
qed


subsection \<open>The argument of process\<close>



end
